theory Spec2Isabelle
  imports Main "HOL-Library.Char_ord" "HOL-Library.List_Lexorder"
begin

section \<open>Python values and control flow\<close>

text \<open>
  The module \<^verbatim>\<open>cumulus/storage.py\<close> is Python 2: names and object contents are byte
  strings (\<open>string\<close>), integers are unbounded (\<open>int\<close>). Exceptions are values: every
  operation returns \<open>Inl e\<close> when it raises \<open>e\<close> and \<open>Inr v\<close> when it returns \<open>v\<close>,
  together with the state it leaves behind (attributes assigned before a raise stay
  assigned).  \<open>ResponseError\<close> and \<open>NoSuchObject\<close> are the two exception classes the module
  imports from the client library; they are unrelated classes, so a handler for one
  does not catch the other.
\<close>

datatype exc =
    ResponseError (status: int) (reason: string)
  | NoSuchObject
  | AttributeError
  | OtherError string

type_synonym ('s, 'a) action = "'s \<Rightarrow> (exc + 'a) \<times> 's"

definition returns :: "'a \<Rightarrow> ('s, 'a) action" where
  "returns a s = (Inr a, s)"

definition andthen :: "('s, 'a) action \<Rightarrow> ('a \<Rightarrow> ('s, 'b) action) \<Rightarrow> ('s, 'b) action" where
  "andthen m f s = (case m s of (Inl e, s') \<Rightarrow> (Inl e, s') | (Inr a, s') \<Rightarrow> f a s')"

text \<open>Slices \<^verbatim>\<open>xs[lo:hi]\<close> with Python's treatment of negative and out-of-range bounds.\<close>

definition py_index :: "nat \<Rightarrow> int \<Rightarrow> nat" where
  "py_index n i = (if i < 0 then nat (max 0 (int n + i)) else min n (nat i))"

definition py_slice :: "int option \<Rightarrow> int option \<Rightarrow> 'a list \<Rightarrow> 'a list" where
  "py_slice lo hi xs =
     (let n = length xs;
          a = (case lo of None \<Rightarrow> 0 | Some i \<Rightarrow> py_index n i);
          b = (case hi of None \<Rightarrow> n | Some j \<Rightarrow> py_index n j)
      in drop a (take b xs))"

text \<open>\<^verbatim>\<open>s.find(c)\<close> for a one-character needle: the first index of \<open>c\<close>, or \<open>-1\<close>.\<close>

fun str_find :: "string \<Rightarrow> char \<Rightarrow> int" where
  "str_find [] c = - 1"
| "str_find (x # xs) c =
     (if x = c then 0 else (let i = str_find xs c in if i < 0 then - 1 else i + 1))"

text \<open>\<^verbatim>\<open>path.endswith('/')\<close>.\<close>

definition endswith_slash :: "string \<Rightarrow> bool" where
  "endswith_slash path = (path \<noteq> [] \<and> last path = CHR ''/'')"

section \<open>The client library and the remote service\<close>

text \<open>
  The \<^verbatim>\<open>cloudfiles\<close> client library is not part of the repository. Its handles are
  opaque values, and each of its calls is a parameter: a function of the remote
  service's state \<open>'w\<close> that returns or raises and leaves a new remote state. Nothing is
  assumed about these functions unless a theorem says so.
\<close>

datatype connection = Connection nat

datatype container = Container string

record cloud_obj =
  obj_container :: container
  obj_name :: string
  obj_size :: int

record 'w cloudfiles =
  cf_get_connection ::
    "string \<Rightarrow> string \<Rightarrow> string \<Rightarrow> int \<Rightarrow> bool \<Rightarrow> (string \<times> string) list
       \<Rightarrow> 'w \<Rightarrow> (exc + connection) \<times> 'w"
  cf_get_container :: "connection \<Rightarrow> string \<Rightarrow> 'w \<Rightarrow> (exc + container) \<times> 'w"
  cf_is_public :: "container \<Rightarrow> 'w \<Rightarrow> (exc + bool) \<times> 'w"
  cf_make_public :: "container \<Rightarrow> 'w \<Rightarrow> (exc + unit) \<times> 'w"
  cf_public_uri :: "container \<Rightarrow> 'w \<Rightarrow> (exc + string) \<times> 'w"
  cf_get_object :: "container \<Rightarrow> string \<Rightarrow> 'w \<Rightarrow> (exc + cloud_obj) \<times> 'w"
  cf_delete_object :: "container \<Rightarrow> string \<Rightarrow> 'w \<Rightarrow> (exc + unit) \<times> 'w"
  cf_list_objects ::
    "container \<Rightarrow> string option \<Rightarrow> string option \<Rightarrow> 'w \<Rightarrow> (exc + string list) \<times> 'w"
  cf_read :: "cloud_obj \<Rightarrow> int \<Rightarrow> int \<Rightarrow> 'w \<Rightarrow> (exc + string) \<times> 'w"

text \<open>
  Every call of the library is logged with its arguments and its outcome, the way a
  mock transport records them. The log is what "at most once" and "before" are stated
  on; the code never reads it.
\<close>

datatype event =
    GetConnection "exc + connection"
  | GetContainer connection string "exc + container"
  | IsPublic container "exc + bool"
  | MakePublic container "exc + unit"
  | PublicUri container "exc + string"
  | GetObject container string "exc + cloud_obj"
  | DeleteObject container string "exc + unit"
  | ListObjects container "string option" "string option" "exc + string list"
  | Read cloud_obj int int "exc + string"

section \<open>The storage adapter\<close>

text \<open>
  \<^verbatim>\<open>CloudFilesStorage\<close>: the attributes set by the constructor, and the three lazily
  created ones (\<^verbatim>\<open>_connection\<close>, \<^verbatim>\<open>_container\<close>, \<^verbatim>\<open>_container_public_uri\<close>), where
  \<open>None\<close> is \<^verbatim>\<open>not hasattr(self, ...)\<close>.
\<close>

record storage =
  api_key :: string
  auth_url :: string
  connection_kwargs :: "(string \<times> string) list"
  container_name :: string
  timeout :: int
  use_servicenet :: bool
  username :: string
  p_connection :: "connection option"
  p_container :: "container option"
  p_container_public_uri :: "string option"

record 'w sys =
  adapter :: storage
  remote :: 'w
  calls :: "event list"

definition remote_call ::
  "((exc + 'a) \<Rightarrow> event) \<Rightarrow> ('w \<Rightarrow> (exc + 'a) \<times> 'w) \<Rightarrow> ('w sys, 'a) action" where
  "remote_call ev f s =
     (case f (remote s) of (r, w') \<Rightarrow> (r, s\<lparr>remote := w', calls := calls s @ [ev r]\<rparr>))"

definition assign :: "(storage \<Rightarrow> storage) \<Rightarrow> ('w sys, unit) action" where
  "assign upd s = (Inr (), s\<lparr>adapter := upd (adapter s)\<rparr>)"

definition attribute :: "(storage \<Rightarrow> 'a option) \<Rightarrow> ('w sys, 'a) action" where
  "attribute sel s = (case sel (adapter s) of None \<Rightarrow> (Inl AttributeError, s) | Some v \<Rightarrow> (Inr v, s))"

definition get_connection :: "'w cloudfiles \<Rightarrow> ('w sys, connection) action" where
  "get_connection api s =
     (let self = adapter s in
      andthen
        (if p_connection self = None then
           andthen
             (remote_call GetConnection
                (cf_get_connection api (username self) (api_key self) (auth_url self)
                   (timeout self) (use_servicenet self) (connection_kwargs self)))
             (\<lambda>c. assign (\<lambda>a. a\<lparr>p_connection := Some c\<rparr>))
         else returns ())
        (\<lambda>_. attribute p_connection) s)"

definition set_connection :: "connection \<Rightarrow> ('w sys, unit) action" where
  "set_connection v = assign (\<lambda>a. a\<lparr>p_connection := Some v\<rparr>)"

definition set_container :: "'w cloudfiles \<Rightarrow> container \<Rightarrow> ('w sys, unit) action" where
  "set_container api c =
     andthen (remote_call (IsPublic c) (cf_is_public api c))
       (\<lambda>pub. andthen
          (if \<not> pub then remote_call (MakePublic c) (cf_make_public api c) else returns ())
          (\<lambda>_. andthen
             (assign (\<lambda>a. if p_container_public_uri a \<noteq> None
                           then a\<lparr>p_container_public_uri := None\<rparr> else a))
             (\<lambda>_. assign (\<lambda>a. a\<lparr>p_container := Some c\<rparr>))))"

definition get_container :: "'w cloudfiles \<Rightarrow> ('w sys, container) action" where
  "get_container api s =
     andthen
       (if p_container (adapter s) = None then
          andthen (get_connection api)
            (\<lambda>conn. andthen (attribute (\<lambda>a. Some (container_name a)))
               (\<lambda>n. andthen (remote_call (GetContainer conn n) (cf_get_container api conn n))
                  (set_container api)))
        else returns ())
       (\<lambda>_. attribute p_container) s"

text \<open>
  \<^verbatim>\<open>CUMULUS['CNAMES']\<close> comes from the settings module; it is the parameter \<open>cnames\<close>, a
  dictionary (a missing or empty table is the empty map, for which the test in
  \<^verbatim>\<open>_get_container_url\<close> is false either way).
\<close>

definition get_container_url ::
  "'w cloudfiles \<Rightarrow> (string \<rightharpoonup> string) \<Rightarrow> ('w sys, string) action" where
  "get_container_url api cnames s =
     andthen
       (if p_container_public_uri (adapter s) = None then
          andthen (get_container api)
            (\<lambda>c. andthen (remote_call (PublicUri c) (cf_public_uri api c))
               (\<lambda>u. assign (\<lambda>a. a\<lparr>p_container_public_uri := Some u\<rparr>)))
        else returns ())
       (\<lambda>_. andthen (attribute p_container_public_uri)
          (\<lambda>u. andthen
             (case cnames u of
                Some v \<Rightarrow> assign (\<lambda>a. a\<lparr>p_container_public_uri := Some v\<rparr>)
              | None \<Rightarrow> returns ())
             (\<lambda>_. attribute p_container_public_uri))) s"

definition get_cloud_obj :: "'w cloudfiles \<Rightarrow> string \<Rightarrow> ('w sys, cloud_obj) action" where
  "get_cloud_obj api name =
     andthen (get_container api) (\<lambda>c. remote_call (GetObject c name) (cf_get_object api c name))"

text \<open>\<^verbatim>\<open>self.container.delete_object(name)\<close>, the expression guarded by \<^verbatim>\<open>try\<close>.\<close>

definition container_delete_object :: "'w cloudfiles \<Rightarrow> string \<Rightarrow> ('w sys, unit) action" where
  "container_delete_object api name =
     andthen (get_container api)
       (\<lambda>c. remote_call (DeleteObject c name) (cf_delete_object api c name))"

definition delete :: "'w cloudfiles \<Rightarrow> string \<Rightarrow> ('w sys, unit) action" where
  "delete api name s =
     (case container_delete_object api name s of
        (Inl (ResponseError st rs), s') \<Rightarrow>
          (if st = 404 then (Inr (), s') else (Inl (ResponseError st rs), s'))
      | (r, s') \<Rightarrow> (r, s'))"

definition exists :: "'w cloudfiles \<Rightarrow> string \<Rightarrow> ('w sys, bool) action" where
  "exists api name s =
     (case get_cloud_obj api name s of
        (Inr obj, s') \<Rightarrow> (Inr True, s')
      | (Inl NoSuchObject, s') \<Rightarrow> (Inr False, s')
      | (Inl e, s') \<Rightarrow> (Inl e, s'))"

text \<open>The two listings normalise \<open>path\<close> the same way.\<close>

definition normalize_path :: "string \<Rightarrow> string" where
  "normalize_path path = (if path \<noteq> [] \<and> \<not> endswith_slash path then path @ ''/'' else path)"

text \<open>\<^verbatim>\<open>self.container.list_objects(prefix=..., path=...)\<close>.\<close>

definition container_list_objects ::
  "'w cloudfiles \<Rightarrow> string option \<Rightarrow> string option \<Rightarrow> ('w sys, string list) action" where
  "container_list_objects api prefix path =
     andthen (get_container api)
       (\<lambda>c. remote_call (ListObjects c prefix path) (cf_list_objects api c prefix path))"

definition listdir_loop :: "nat \<Rightarrow> string list \<Rightarrow> string list" where
  "listdir_loop path_len names =
     fold (\<lambda>name files. files @ [py_slice (Some (int path_len)) None name]) names []"

definition listdir :: "'w cloudfiles \<Rightarrow> string \<Rightarrow> ('w sys, string list \<times> string list) action" where
  "listdir api path0 =
     (let path = normalize_path path0; path_len = length path in
      andthen (container_list_objects api None (Some path))
        (\<lambda>names. returns ([], listdir_loop path_len names)))"

definition full_listdir_step ::
  "nat \<Rightarrow> string \<Rightarrow> string set \<times> string list \<Rightarrow> string set \<times> string list" where
  "full_listdir_step path_len name0 acc =
     (case acc of (dirs, files) \<Rightarrow>
        (let name = py_slice (Some (int path_len)) None name0;
             slash = str_find (py_slice (Some 1) (Some (- 1)) name) CHR ''/'' + 1
         in if slash \<noteq> 0 then (insert (py_slice None (Some slash) name) dirs, files)
            else if name \<noteq> [] then (dirs, files @ [name])
            else (dirs, files)))"

definition full_listdir_loop :: "nat \<Rightarrow> string list \<Rightarrow> string set \<times> string list" where
  "full_listdir_loop path_len names = fold (full_listdir_step path_len) names ({}, [])"

definition full_listdir ::
  "'w cloudfiles \<Rightarrow> string \<Rightarrow> ('w sys, string list \<times> string list) action" where
  "full_listdir api path0 =
     (let path = normalize_path path0; path_len = length path in
      andthen (container_list_objects api (Some path) None)
        (\<lambda>names. case full_listdir_loop path_len names of
                    (dirs, files) \<Rightarrow> returns (sorted_list_of_set dirs, files)))"

definition storage_size :: "'w cloudfiles \<Rightarrow> string \<Rightarrow> ('w sys, int) action" where
  "storage_size api name = andthen (get_cloud_obj api name) (\<lambda>obj. returns (obj_size obj))"

definition url :: "'w cloudfiles \<Rightarrow> (string \<rightharpoonup> string) \<Rightarrow> string \<Rightarrow> ('w sys, string) action" where
  "url api cnames name =
     andthen (get_container_url api cnames) (\<lambda>base. returns (base @ ''/'' @ name))"

section \<open>The file handle\<close>

text \<open>
  \<^verbatim>\<open>CloudFilesStorageFile\<close>: its name, the cursor \<^verbatim>\<open>_pos\<close>, and the two lazily created
  attributes \<^verbatim>\<open>_size\<close> and \<^verbatim>\<open>_file\<close> (\<open>None\<close> is \<^verbatim>\<open>not hasattr(self, ...)\<close>). The
  attribute \<^verbatim>\<open>_storage\<close> refers to the adapter, which is the \<open>adapter\<close> of the system state:
  what a handle does to the adapter (binding its container on first use) is seen by
  every later call. The constructor passes \<^verbatim>\<open>file=None\<close> to the base class, whose
  assignment \<^verbatim>\<open>self.file = None\<close> goes through \<^verbatim>\<open>_set_file\<close> and leaves \<^verbatim>\<open>_file\<close> absent.
\<close>

record storage_file =
  f_name :: string
  p_pos :: int
  p_size :: "int option"
  p_file :: "cloud_obj option"

definition new_file :: "string \<Rightarrow> storage_file" where
  "new_file name = \<lparr>f_name = name, p_pos = 0, p_size = None, p_file = None\<rparr>"

text \<open>\<^verbatim>\<open>_open\<close> makes a handle without any remote call.\<close>

definition open_storage :: "string \<Rightarrow> ('w sys, storage_file) action" where
  "open_storage name = returns (new_file name)"

definition on_storage :: "('w sys, 'a) action \<Rightarrow> (storage_file \<times> 'w sys, 'a) action" where
  "on_storage m fs = (case fs of (f, s) \<Rightarrow> (case m s of (r, s') \<Rightarrow> (r, (f, s'))))"

definition assign_file :: "(storage_file \<Rightarrow> storage_file) \<Rightarrow> (storage_file \<times> 'w sys, unit) action" where
  "assign_file upd fs = (case fs of (f, s) \<Rightarrow> (Inr (), (upd f, s)))"

definition file_attribute :: "(storage_file \<Rightarrow> 'a option) \<Rightarrow> (storage_file \<times> 'w sys, 'a) action" where
  "file_attribute sel fs =
     (case sel (fst fs) of None \<Rightarrow> (Inl AttributeError, fs) | Some v \<Rightarrow> (Inr v, fs))"

definition get_pos :: "(storage_file \<times> 'w sys, int) action" where
  "get_pos = file_attribute (\<lambda>f. Some (p_pos f))"

definition get_size :: "'w cloudfiles \<Rightarrow> (storage_file \<times> 'w sys, int) action" where
  "get_size api fs =
     andthen
       (if p_size (fst fs) = None then
          andthen (on_storage (storage_size api (f_name (fst fs))))
            (\<lambda>v. assign_file (\<lambda>f. f\<lparr>p_size := Some v\<rparr>))
        else returns ())
       (\<lambda>_. file_attribute p_size) fs"

definition set_size :: "int \<Rightarrow> (storage_file \<times> 'w sys, unit) action" where
  "set_size v = assign_file (\<lambda>f. f\<lparr>p_size := Some v\<rparr>)"

text \<open>
  \<^verbatim>\<open>_get_file\<close> also stores the bound method \<^verbatim>\<open>_get_pos\<close> in the attribute \<^verbatim>\<open>tell\<close> of the
  library's object; nothing in the module reads that attribute, and it is left out.
\<close>

definition get_file :: "'w cloudfiles \<Rightarrow> (storage_file \<times> 'w sys, cloud_obj) action" where
  "get_file api fs =
     andthen
       (if p_file (fst fs) = None then
          andthen (on_storage (get_cloud_obj api (f_name (fst fs))))
            (\<lambda>obj. assign_file (\<lambda>f. f\<lparr>p_file := Some obj\<rparr>))
        else returns ())
       (\<lambda>_. file_attribute p_file) fs"

definition set_file :: "cloud_obj option \<Rightarrow> (storage_file \<times> 'w sys, unit) action" where
  "set_file v =
     (case v of
        None \<Rightarrow> assign_file (\<lambda>f. if p_file f \<noteq> None then f\<lparr>p_file := None\<rparr> else f)
      | Some obj \<Rightarrow> assign_file (\<lambda>f. f\<lparr>p_file := Some obj\<rparr>))"

text \<open>\<^verbatim>\<open>num_bytes or -1\<close>: \<^verbatim>\<open>None\<close> and \<open>0\<close> are both falsy.\<close>

definition or_minus_one :: "int option \<Rightarrow> int" where
  "or_minus_one num_bytes = (case num_bytes of None \<Rightarrow> - 1 | Some n \<Rightarrow> if n = 0 then - 1 else n)"

definition read :: "'w cloudfiles \<Rightarrow> int option \<Rightarrow> (storage_file \<times> 'w sys, string) action" where
  "read api num_bytes =
     andthen (get_file api)
       (\<lambda>obj. andthen (file_attribute (\<lambda>f. Some (p_pos f)))
          (\<lambda>pos. andthen
             (on_storage (remote_call (Read obj (or_minus_one num_bytes) pos)
                            (cf_read api obj (or_minus_one num_bytes) pos)))
             (\<lambda>data. andthen (assign_file (\<lambda>f. f\<lparr>p_pos := p_pos f + int (length data)\<rparr>))
                (\<lambda>_. returns data))))"

definition open_file :: "(storage_file \<times> 'w sys, unit) action" where
  "open_file = assign_file (\<lambda>f. f\<lparr>p_pos := 0\<rparr>)"

definition close :: "(storage_file \<times> 'w sys, unit) action" where
  "close = assign_file (\<lambda>f. f\<lparr>p_pos := 0\<rparr>)"

definition closed :: "(storage_file \<times> 'w sys, bool) action" where
  "closed fs = (Inr (p_file (fst fs) = None), fs)"

definition seek :: "int \<Rightarrow> (storage_file \<times> 'w sys, unit) action" where
  "seek pos = assign_file (\<lambda>f. f\<lparr>p_pos := pos\<rparr>)"

section \<open>An in-memory service\<close>

text \<open>
  A stand-in for the remote service, for running the module on concrete containers: one
  container of named objects in listing order and its public flag. A listing returns
  the names under the requested prefix, \<^verbatim>\<open>read(size, offset)\<close> returns \<open>size\<close> bytes from
  \<open>offset\<close>, or all the remaining ones when \<open>size\<close> is negative, and deleting or fetching
  an absent object fails the way the library reports it.
\<close>

record memory =
  objects :: "(string \<times> string) list"
  public :: bool

definition startswith :: "string \<Rightarrow> string \<Rightarrow> bool" where
  "startswith name p = (take (length p) name = p)"

definition object_read :: "string \<Rightarrow> int \<Rightarrow> int \<Rightarrow> string" where
  "object_read contents sz offset =
     (if sz < 0 then drop (nat offset) contents
      else take (nat sz) (drop (nat offset) contents))"

definition in_memory :: "memory cloudfiles" where
  "in_memory =
     \<lparr>cf_get_connection = (\<lambda>user key authurl tmo servicenet kwargs w. (Inr (Connection 0), w)),
      cf_get_container = (\<lambda>conn n w. (Inr (Container n), w)),
      cf_is_public = (\<lambda>c w. (Inr (public w), w)),
      cf_make_public = (\<lambda>c w. (Inr (), w\<lparr>public := True\<rparr>)),
      cf_public_uri = (\<lambda>c w. (Inr (case c of Container n \<Rightarrow> ''http://cdn/'' @ n), w)),
      cf_get_object = (\<lambda>c n w.
         case map_of (objects w) n of
           None \<Rightarrow> (Inl NoSuchObject, w)
         | Some d \<Rightarrow> (Inr \<lparr>obj_container = c, obj_name = n, obj_size = int (length d)\<rparr>, w)),
      cf_delete_object = (\<lambda>c n w.
         case map_of (objects w) n of
           None \<Rightarrow> (Inl (ResponseError 404 ''Not Found''), w)
         | Some d \<Rightarrow> (Inr (), w\<lparr>objects := filter (\<lambda>kv. fst kv \<noteq> n) (objects w)\<rparr>)),
      cf_list_objects = (\<lambda>c prefix path w.
         (Inr (filter (\<lambda>k. startswith k (case prefix of Some p \<Rightarrow> p | None \<Rightarrow>
                                           (case path of Some p \<Rightarrow> p | None \<Rightarrow> [])))
                 (map fst (objects w))), w)),
      cf_read = (\<lambda>obj sz offset w.
         case map_of (objects w) (obj_name obj) of
           None \<Rightarrow> (Inl (ResponseError 404 ''Not Found''), w)
         | Some d \<Rightarrow> (Inr (object_read d sz offset), w))\<rparr>"

definition new_storage :: "string \<Rightarrow> storage" where
  "new_storage cname =
     \<lparr>api_key = ''key'', auth_url = ''https://auth'', connection_kwargs = [],
      container_name = cname, timeout = 5, use_servicenet = False, username = ''user'',
      p_connection = None, p_container = None, p_container_public_uri = None\<rparr>"

definition start :: "storage \<Rightarrow> 'w \<Rightarrow> 'w sys" where
  "start a w = \<lparr>adapter = a, remote = w, calls = []\<rparr>"

definition three_objects :: memory where
  "three_objects =
     \<lparr>objects = [(''a.txt'', ''alpha''), (''b/c.txt'', ''gamma''), (''b/d/e.txt'', ''epsilon'')],
      public = False\<rparr>"

definition example_sys :: "memory sys" where
  "example_sys = start (new_storage ''media'') three_objects"

text \<open>The same service when fetching and deleting objects fail with status 500.\<close>

definition broken :: "memory cloudfiles" where
  "broken = in_memory
     \<lparr>cf_get_object := (\<lambda>c n w. (Inl (ResponseError 500 ''Internal Server Error''), w)),
      cf_delete_object := (\<lambda>c n w. (Inl (ResponseError 500 ''Internal Server Error''), w))\<rparr>"


text \<open>A container with an object \<open>b\<close> beside an object \<open>b/c.txt\<close>.\<close>

definition marker_objects :: memory where
  "marker_objects = \<lparr>objects = [(''b'', []), (''b/c.txt'', ''gamma'')], public = False\<rparr>"

definition marker_sys :: "memory sys" where
  "marker_sys = start (new_storage ''media'') marker_objects"

text \<open>A handle on the seven-byte object \<open>b/d/e.txt\<close>, fresh and after one full read.\<close>

definition example_file :: storage_file where
  "example_file = new_file ''b/d/e.txt''"

definition example_file_read :: "storage_file \<times> memory sys" where
  "example_file_read = snd (read in_memory None (example_file, example_sys))"

section \<open>Counting the size fetches of a handle\<close>

text \<open>
  \<open>size_accesses api k\<close> reads the property \<^verbatim>\<open>size\<close> of a handle \<open>k\<close> times in a row,
  whatever each access returns or raises. A remote size fetch is a call of
  \<^verbatim>\<open>get_object\<close>, which is all that \<^verbatim>\<open>storage.size(name)\<close> asks of the service once the
  container is bound: \<open>fetches\<close> counts these calls in a log, \<open>fetched\<close> those among them
  that returned.
\<close>

fun size_accesses :: "'w cloudfiles \<Rightarrow> nat \<Rightarrow> storage_file \<times> 'w sys \<Rightarrow> storage_file \<times> 'w sys" where
  "size_accesses api 0 fs = fs"
| "size_accesses api (Suc k) fs = size_accesses api k (snd (get_size api fs))"

fun is_fetch :: "event \<Rightarrow> bool" where
  "is_fetch (GetObject c n r) = True"
| "is_fetch _ = False"

fun is_fetched :: "event \<Rightarrow> bool" where
  "is_fetched (GetObject c n (Inr obj)) = True"
| "is_fetched _ = False"

definition fetches :: "event list \<Rightarrow> nat" where
  "fetches tr = length (filter is_fetch tr)"

definition fetched :: "event list \<Rightarrow> nat" where
  "fetched tr = length (filter is_fetched tr)"

section \<open>Public containers and the calls made on them\<close>

text \<open>
  An event of the log shows a container to be public when \<^verbatim>\<open>is_public()\<close> returned true
  or \<^verbatim>\<open>make_public()\<close> returned. \<open>public_before_uri P tr\<close> reads the log \<open>tr\<close> from the
  left, starting with the containers \<open>P\<close>: every call of \<^verbatim>\<open>public_uri()\<close> is on a container
  shown public by an earlier event.
\<close>

fun made_public :: "event \<Rightarrow> container set" where
  "made_public (IsPublic c (Inr pub)) = (if pub then {c} else {})"
| "made_public (MakePublic c (Inr u)) = {c}"
| "made_public e = {}"

definition ensured :: "event list \<Rightarrow> container set" where
  "ensured tr = \<Union> (made_public ` set tr)"

fun public_before_uri :: "container set \<Rightarrow> event list \<Rightarrow> bool" where
  "public_before_uri P [] = True"
| "public_before_uri P (PublicUri c r # es) = (c \<in> P \<and> public_before_uri P es)"
| "public_before_uri P (e # es) = public_before_uri (P \<union> made_public e) es"

text \<open>
  One pass of the alias test of \<^verbatim>\<open>_get_container_url\<close> replaces a URI found in the table
  \<open>cnames\<close>; a URI is derived from \<open>u0\<close> when it comes from it by some number of such
  replacements.
\<close>

inductive derived :: "(string \<rightharpoonup> string) \<Rightarrow> string \<Rightarrow> string \<Rightarrow> bool"
  for cnames :: "string \<rightharpoonup> string" and u0 :: string where
  derived_refl: "derived cnames u0 u0"
| derived_step: "derived cnames u0 u \<Longrightarrow> cnames u = Some v \<Longrightarrow> derived cnames u0 v"

text \<open>
  The invariant of the adapter: the log has every \<^verbatim>\<open>public_uri()\<close> after its container was
  shown public; a bound container has been shown public; a cached URI exists only with
  a bound container, and is derived from an answer of \<^verbatim>\<open>public_uri()\<close> on that container.
\<close>

definition public_invariant :: "(string \<rightharpoonup> string) \<Rightarrow> 'w sys \<Rightarrow> bool" where
  "public_invariant cnames s =
     (public_before_uri {} (calls s)
      \<and> (case p_container (adapter s) of
           None \<Rightarrow> p_container_public_uri (adapter s) = None
         | Some c \<Rightarrow>
             c \<in> ensured (calls s)
             \<and> (case p_container_public_uri (adapter s) of
                  None \<Rightarrow> True
                | Some u \<Rightarrow> \<exists>u0. PublicUri c (Inr u0) \<in> set (calls s) \<and> derived cnames u0 u)))"

text \<open>
  The operations on an adapter: the two property setters, the getters, and the methods.
  (\<^verbatim>\<open>_save\<close> is not modelled; it reaches the adapter's attributes through the
  \<^verbatim>\<open>container\<close> getter only.) \<open>step\<close> runs one operation and keeps the state it leaves,
  whether it returned or raised.
\<close>

datatype op =
    AssignConnection connection
  | AssignContainer container
  | ReadContainer
  | ReadContainerUrl
  | CallUrl string
  | CallGetCloudObj string
  | CallDelete string
  | CallExists string
  | CallSize string
  | CallListdir string
  | CallFullListdir string

fun step :: "'w cloudfiles \<Rightarrow> (string \<rightharpoonup> string) \<Rightarrow> op \<Rightarrow> 'w sys \<Rightarrow> 'w sys" where
  "step api cnames (AssignConnection v) s = snd (set_connection v s)"
| "step api cnames (AssignContainer c) s = snd (set_container api c s)"
| "step api cnames ReadContainer s = snd (get_container api s)"
| "step api cnames ReadContainerUrl s = snd (get_container_url api cnames s)"
| "step api cnames (CallUrl n) s = snd (url api cnames n s)"
| "step api cnames (CallGetCloudObj n) s = snd (get_cloud_obj api n s)"
| "step api cnames (CallDelete n) s = snd (delete api n s)"
| "step api cnames (CallExists n) s = snd (exists api n s)"
| "step api cnames (CallSize n) s = snd (storage_size api n s)"
| "step api cnames (CallListdir p) s = snd (listdir api p s)"
| "step api cnames (CallFullListdir p) s = snd (full_listdir api p s)"

definition run :: "'w cloudfiles \<Rightarrow> (string \<rightharpoonup> string) \<Rightarrow> op list \<Rightarrow> 'w sys \<Rightarrow> 'w sys" where
  "run api cnames ops s = fold (step api cnames) ops s"

text \<open>An adapter as the constructor leaves it, with no container and no cached URI.\<close>

definition unbound :: "storage \<Rightarrow> storage" where
  "unbound a = a\<lparr>p_container := None, p_container_public_uri := None\<rparr>"

definition example_after_url :: "memory sys" where
  "example_after_url = run in_memory Map.empty [CallUrl ''a.txt''] (start (unbound (new_storage ''media'')) three_objects)"

section \<open>Weakest preconditions\<close>

text \<open>
  \<open>wp m Q E s\<close>: running \<open>m\<close> from \<open>s\<close> ends in a state satisfying \<open>Q\<close> for the returned
  value, or \<open>E\<close> when it raises.
\<close>

definition wp :: "('s, 'a) action \<Rightarrow> ('a \<Rightarrow> 's \<Rightarrow> bool) \<Rightarrow> ('s \<Rightarrow> bool) \<Rightarrow> 's \<Rightarrow> bool" where
  "wp m Q E s = (case m s of (Inl e, s') \<Rightarrow> E s' | (Inr a, s') \<Rightarrow> Q a s')"

text \<open>Calls that do not fetch an object leave the count of fetches as it is.\<close>

definition quiet :: "(event \<Rightarrow> bool) \<Rightarrow> 'w sys \<Rightarrow> 'w sys \<Rightarrow> bool" where
  "quiet p s t = (filter p (calls t) = filter p (calls s))"

section \<open>Notions used to state the properties\<close>

text \<open>
  The spec's wording of the directory test: a \<open>/\<close> strictly after the first and strictly
  before the last character of the name.
\<close>

definition embedded_slash :: "string \<Rightarrow> bool" where
  "embedded_slash r = (\<exists>i\<in>{1..<length r - 1}. r ! i = CHR ''/'')"

text \<open>What one pass of the loop of \<^verbatim>\<open>full_listdir\<close> contributes, name by name.\<close>

definition dir_entry :: "string \<Rightarrow> string" where
  "dir_entry r =
     py_slice None (Some (str_find (py_slice (Some 1) (Some (- 1)) r) CHR ''/'' + 1)) r"

definition dir_entries :: "nat \<Rightarrow> string list \<Rightarrow> string set" where
  "dir_entries k names = dir_entry ` {r \<in> drop k ` set names. embedded_slash r}"

definition file_entries :: "nat \<Rightarrow> string list \<Rightarrow> string list" where
  "file_entries k names = filter (\<lambda>r. \<not> embedded_slash r \<and> r \<noteq> []) (map (drop k) names)"

section \<open>Slices and searches\<close>

lemma py_slice_from: "py_slice (Some (int k)) None xs = drop k xs"
  by (cases "k \<le> length xs") (auto simp: py_slice_def py_index_def min_def Let_def)

lemma py_slice_inner: "py_slice (Some 1) (Some (- 1)) xs = drop 1 (take (length xs - 1) xs)"
  by (cases xs) (auto simp: py_slice_def py_index_def Let_def)

lemma py_slice_upto: "0 \<le> i \<Longrightarrow> py_slice None (Some i) xs = take (nat i) xs"
  by (cases "nat i \<le> length xs") (auto simp: py_slice_def py_index_def min_def Let_def)

lemma str_find_ge: "- 1 \<le> str_find xs c"
  by (induction xs) (auto simp: Let_def)

lemma str_find_neg: "(str_find xs c < 0) = (c \<notin> set xs)"
  by (induction xs) (auto simp: Let_def)

lemma str_find_absent: "(str_find xs c = - 1) = (c \<notin> set xs)"
  using str_find_neg [of xs c] str_find_ge [of xs c] by auto

lemma str_find_bound: "str_find xs c < int (length xs)"
  by (induction xs) (auto simp: Let_def)

lemma str_find_first:
  "0 \<le> str_find xs c \<Longrightarrow>
     nat (str_find xs c) < length xs \<and> xs ! nat (str_find xs c) = c
     \<and> (\<forall>j < nat (str_find xs c). xs ! j \<noteq> c)"
proof (induction xs)
  case Nil
  then show ?case by simp
next
  case (Cons x xs)
  show ?case
  proof (cases "x = c")
    case True
    then show ?thesis by simp
  next
    case False
    then have pos: "0 \<le> str_find xs c" and eq: "str_find (x # xs) c = str_find xs c + 1"
      using Cons.prems by (auto simp: Let_def split: if_splits)
    have n: "nat (str_find xs c + 1) = Suc (nat (str_find xs c))" using pos by simp
    show ?thesis
      unfolding eq n using Cons.IH [OF pos] False
      by (auto simp: nth_Cons simp del: str_find.simps split: nat.splits)
  qed
qed

lemma embedded_slash_inner: "embedded_slash r = (CHR ''/'' \<in> set (drop 1 (take (length r - 1) r)))"
proof
  assume "embedded_slash r"
  then obtain i where i: "1 \<le> i" "i < length r - 1" "r ! i = CHR ''/''"
    by (auto simp: embedded_slash_def)
  then have "drop 1 (take (length r - 1) r) ! (i - 1) = CHR ''/''" by simp
  moreover have "i - 1 < length (drop 1 (take (length r - 1) r))" using i by simp
  ultimately show "CHR ''/'' \<in> set (drop 1 (take (length r - 1) r))"
    by (metis nth_mem)
next
  assume "CHR ''/'' \<in> set (drop 1 (take (length r - 1) r))"
  then obtain j where j: "j < length (drop 1 (take (length r - 1) r))"
      "drop 1 (take (length r - 1) r) ! j = CHR ''/''"
    by (auto simp: in_set_conv_nth)
  then have "r ! (j + 1) = CHR ''/''" "1 \<le> j + 1" "j + 1 < length r - 1" by auto
  then show "embedded_slash r" unfolding embedded_slash_def by (intro bexI [of _ "j + 1"]) auto
qed

lemma slash_zero: "(str_find (py_slice (Some 1) (Some (- 1)) r) CHR ''/'' + 1 = 0) = (\<not> embedded_slash r)"
proof -
  have "(x + 1 = 0) = (x = - 1)" for x :: int by arith
  then show ?thesis
    using str_find_absent [of "drop 1 (take (length r - 1) r)" "CHR ''/''"]
    by (simp add: py_slice_inner embedded_slash_inner)
qed

section \<open>The listing loops\<close>

lemma step_cases:
  "full_listdir_step k n (D, F) =
     (if embedded_slash (drop k n) then (insert (dir_entry (drop k n)) D, F)
      else if drop k n \<noteq> [] then (D, F @ [drop k n]) else (D, F))"
  using slash_zero [of "drop k n"]
  by (simp add: full_listdir_step_def py_slice_from dir_entry_def Let_def)

lemma fold_step:
  "fold (full_listdir_step k) names (D, F) = (D \<union> dir_entries k names, F @ file_entries k names)"
proof (induction names arbitrary: D F)
  case Nil
  then show ?case by (simp add: dir_entries_def file_entries_def)
next
  case (Cons n names)
  have d: "dir_entries k (n # names) =
      (if embedded_slash (drop k n) then insert (dir_entry (drop k n)) (dir_entries k names)
       else dir_entries k names)"
    by (auto simp: dir_entries_def)
  have f: "file_entries k (n # names) =
      (if \<not> embedded_slash (drop k n) \<and> drop k n \<noteq> [] then drop k n # file_entries k names
       else file_entries k names)"
    by (simp add: file_entries_def)
  show ?case
    by (simp add: step_cases Cons.IH d f)
qed

lemma loop_eq: "full_listdir_loop k names = (dir_entries k names, file_entries k names)"
  by (simp add: full_listdir_loop_def fold_step)

lemma dir_entry_nonempty: "embedded_slash r \<Longrightarrow> dir_entry r \<noteq> []"
proof -
  assume e: "embedded_slash r"
  let ?i = "str_find (py_slice (Some 1) (Some (- 1)) r) CHR ''/''"
  have "0 \<le> ?i" using e slash_zero [of r] str_find_ge [of "py_slice (Some 1) (Some (- 1)) r" "CHR ''/''"]
    by arith
  moreover have "r \<noteq> []" using e by (auto simp: embedded_slash_def)
  ultimately show ?thesis
    by (simp add: dir_entry_def py_slice_upto)
qed

text \<open>A directory entry is the part of the name before its first embedded slash.\<close>

lemma dir_entry_before_slash:
  assumes "embedded_slash r"
  shows "\<exists>i. 1 \<le> i \<and> i < length r - 1 \<and> r ! i = CHR ''/''
           \<and> (\<forall>j. 1 \<le> j \<and> j < i \<longrightarrow> r ! j \<noteq> CHR ''/'') \<and> dir_entry r = take i r"
proof -
  let ?inner = "drop 1 (take (length r - 1) r)"
  let ?k = "str_find ?inner CHR ''/''"
  have pos: "0 \<le> ?k"
    using assms str_find_neg [of ?inner "CHR ''/''"] by (simp add: embedded_slash_inner)
  note f = str_find_first [OF pos]
  let ?i = "Suc (nat ?k)"
  have len: "nat ?k < length r - 1 - 1" using f by simp
  have inner: "?inner ! j = r ! Suc j" if "j < length r - 1 - 1" for j
    using that by simp
  have "1 \<le> ?i" "?i < length r - 1" using len by simp_all
  moreover have "r ! ?i = CHR ''/''" using f inner [OF len] by simp
  moreover have "\<forall>j. 1 \<le> j \<and> j < ?i \<longrightarrow> r ! j \<noteq> CHR ''/''"
  proof (intro allI impI)
    fix j assume j: "1 \<le> j \<and> j < ?i"
    then have lt: "j - 1 < nat ?k" by arith
    then have "?inner ! (j - 1) \<noteq> CHR ''/''" using f by blast
    moreover have "?inner ! (j - 1) = r ! Suc (j - 1)"
      using lt len by (intro inner) simp
    ultimately show "r ! j \<noteq> CHR ''/''" using j by simp
  qed
  moreover have "dir_entry r = take ?i r"
    using pos by (simp add: dir_entry_def py_slice_inner py_slice_upto nat_add_distrib)
  ultimately show ?thesis by blast
qed

lemma finite_dir_entries: "finite (dir_entries k names)"
  by (simp add: dir_entries_def)

lemma full_listdir_eq:
  "full_listdir api path s =
     (case container_list_objects api (Some (normalize_path path)) None s of
        (Inl e, s') \<Rightarrow> (Inl e, s')
      | (Inr names, s') \<Rightarrow>
          (Inr (sorted_list_of_set (dir_entries (length (normalize_path path)) names),
                file_entries (length (normalize_path path)) names), s'))"
  by (simp add: full_listdir_def Let_def andthen_def returns_def loop_eq split: prod.splits sum.splits)

lemma listdir_loop_map: "listdir_loop k names = map (drop k) names"
proof -
  have "fold (\<lambda>name files. files @ [py_slice (Some (int k)) None name]) names acc
          = acc @ map (drop k) names" for acc
    by (induction names arbitrary: acc) (simp_all add: py_slice_from)
  then show ?thesis by (simp add: listdir_loop_def)
qed

lemma listdir_eq:
  "listdir api path s =
     (case container_list_objects api None (Some (normalize_path path)) s of
        (Inl e, s') \<Rightarrow> (Inl e, s')
      | (Inr names, s') \<Rightarrow> (Inr ([], map (drop (length (normalize_path path))) names), s'))"
  by (simp add: listdir_def Let_def andthen_def returns_def listdir_loop_map split: prod.splits sum.splits)

lemma distinct_single: "distinct xs \<Longrightarrow> set xs = {x} \<Longrightarrow> xs = [x]"
  by (cases xs) (auto simp: subset_singleton_iff)

lemma dir_entries_removeAll:
  "\<not> embedded_slash (drop k n) \<Longrightarrow> dir_entries k (removeAll n names) = dir_entries k names"
  by (auto simp: dir_entries_def)

lemma normalize_path_suffix:
  "normalize_path path = (if path \<noteq> [] \<and> \<not> (\<exists>p. path = p @ ''/'') then path @ ''/'' else path)"
proof -
  have "endswith_slash path = (\<exists>p. path = p @ ''/'')"
    by (cases path rule: rev_cases) (auto simp: endswith_slash_def)
  then show ?thesis by (simp add: normalize_path_def)
qed

lemmas run_simps =
  container_list_objects_def container_delete_object_def get_cloud_obj_def get_container_def
  get_connection_def set_container_def andthen_def returns_def remote_call_def assign_def
  attribute_def in_memory_def start_def new_storage_def three_objects_def example_sys_def
  startswith_def Let_def

lemma example_listing_root:
  "fst (container_list_objects in_memory (Some []) None example_sys)
     = Inr [''a.txt'', ''b/c.txt'', ''b/d/e.txt'']"
  by (simp add: run_simps)

lemma example_listing_b:
  "fst (container_list_objects in_memory None (Some ''b/'') example_sys)
     = Inr [''b/c.txt'', ''b/d/e.txt'']"
  by (simp add: run_simps)

lemma with_snd: "fst x = a \<Longrightarrow> x = (a, snd x)"
  by (simp add: prod_eq_iff)

section \<open>Listings\<close>

text \<open>
  Claim C1. \<^verbatim>\<open>full_listdir("")\<close> over a container whose listing is exactly
  \<open>a.txt\<close>, \<open>b/c.txt\<close>, \<open>b/d/e.txt\<close> (in any order) returns the files \<open>[a.txt]\<close> and one
  directory; \<open>b/d/e.txt\<close> surfaces neither as a file nor as a second directory. The
  directory entry is \<^verbatim>\<open>name[:slash]\<close>, where \<open>slash\<close> is the index of the first embedded
  \<open>/\<close>: the part of the name before that slash. So the directories are \<open>[b]\<close>, without
  the slash.
\<close>

theorem full_listdir_root_example:
  assumes "container_list_objects api (Some []) None s = (Inr names, s')"
    and "set names = {''a.txt'', ''b/c.txt'', ''b/d/e.txt''}" and "distinct names"
  shows "full_listdir api [] s = (Inr ([''b''], [''a.txt'']), s')"
proof -
  have e: "\<not> embedded_slash ''a.txt''" "embedded_slash ''b/c.txt''" "embedded_slash ''b/d/e.txt''"
    by (simp_all add: embedded_slash_inner)
  have "{r \<in> drop 0 ` set names. embedded_slash r} = {''b/c.txt'', ''b/d/e.txt''}"
    using e by (auto simp: assms(2))
  moreover have "dir_entry ''b/c.txt'' = ''b''" "dir_entry ''b/d/e.txt'' = ''b''"
    by (simp_all add: dir_entry_def py_slice_inner py_slice_upto)
  ultimately have "dir_entries 0 names = {''b''}"
    by (simp add: dir_entries_def)
  moreover have "file_entries 0 names = [''a.txt'']"
  proof (rule distinct_single)
    show "distinct (file_entries 0 names)" using assms(3) by (simp add: file_entries_def)
    show "set (file_entries 0 names) = {''a.txt''}"
      using e by (auto simp: file_entries_def assms(2))
  qed
  ultimately show ?thesis
    using assms(1) by (simp add: full_listdir_eq normalize_path_def)
qed

theorem full_listdir_root_example_witness:
  "fst (container_list_objects in_memory (Some []) None example_sys)
     = Inr [''a.txt'', ''b/c.txt'', ''b/d/e.txt'']
   \<and> fst (full_listdir in_memory [] example_sys) = Inr ([''b''], [''a.txt''])"
proof -
  have "full_listdir in_memory [] example_sys
      = (Inr ([''b''], [''a.txt'']),
         snd (container_list_objects in_memory (Some []) None example_sys))"
    by (rule full_listdir_root_example [OF with_snd [OF example_listing_root]]) auto
  then show ?thesis by (simp add: example_listing_root)
qed

theorem full_listdir_root_counterexample:
  "fst (container_list_objects in_memory (Some []) None example_sys)
     = Inr [''a.txt'', ''b/c.txt'', ''b/d/e.txt'']
   \<and> fst (full_listdir in_memory [] example_sys) = Inr ([''b''], [''a.txt''])
   \<and> fst (full_listdir in_memory [] example_sys) \<noteq> Inr ([''b/''], [''a.txt''])"
  by (simp add: full_listdir_def full_listdir_loop_def full_listdir_step_def py_slice_def
      py_index_def normalize_path_def run_simps)

text \<open>
  Claim C2. Take a name \<open>n\<close> of the listing and its remainder \<open>r\<close> after the normalised
  prefix. If \<open>r\<close> has no \<open>/\<close> strictly between its first and its last character, the
  pass of the loop for \<open>n\<close> appends \<open>r\<close> to the files when \<open>r\<close> is not empty, adds nothing
  when it is empty, and never touches the directories: \<open>r\<close> is among the returned files,
  the returned directories are those of the listing without \<open>n\<close>, each of them the entry
  of a listed name that does have such a slash, and the empty string is returned neither
  as a directory nor as a file. This is a statement about what each object contributes:
  the string \<open>r\<close> itself can still be among the returned directories, as the entry of
  another object.
\<close>

theorem full_listdir_no_embedded_slash_is_file:
  assumes listed: "container_list_objects api (Some (normalize_path path)) None s = (Inr names, s')"
    and n: "n \<in> set names"
    and r: "r = drop (length (normalize_path path)) n"
    and no_slash: "\<not> embedded_slash r"
  shows "\<exists>dirs files.
           full_listdir api path s = (Inr (dirs, files), s')
         \<and> (r \<noteq> [] \<longrightarrow> r \<in> set files)
         \<and> (\<forall>ds fs. full_listdir_step (length (normalize_path path)) n (ds, fs)
                      = (ds, if r = [] then fs else fs @ [r]))
         \<and> dirs = sorted_list_of_set
                    (fst (full_listdir_loop (length (normalize_path path)) (removeAll n names)))
         \<and> (\<forall>d. (d \<in> set dirs) =
                  (\<exists>m\<in>set names. embedded_slash (drop (length (normalize_path path)) m)
                     \<and> d = dir_entry (drop (length (normalize_path path)) m)))
         \<and> [] \<notin> set dirs \<and> [] \<notin> set files"
proof -
  let ?k = "length (normalize_path path)"
  have run: "full_listdir api path s
      = (Inr (sorted_list_of_set (dir_entries ?k names), file_entries ?k names), s')"
    using listed by (simp add: full_listdir_eq)
  have "r \<noteq> [] \<longrightarrow> r \<in> set (file_entries ?k names)"
    using n r no_slash by (auto simp: file_entries_def)
  moreover have "\<forall>ds fs. full_listdir_step ?k n (ds, fs) = (ds, if r = [] then fs else fs @ [r])"
    using r no_slash by (simp add: step_cases)
  moreover have "sorted_list_of_set (dir_entries ?k names)
      = sorted_list_of_set (fst (full_listdir_loop ?k (removeAll n names)))"
    using r no_slash by (simp add: loop_eq dir_entries_removeAll)
  moreover have "\<forall>d. (d \<in> set (sorted_list_of_set (dir_entries ?k names))) =
      (\<exists>m\<in>set names. embedded_slash (drop ?k m) \<and> d = dir_entry (drop ?k m))"
    by (auto simp: finite_dir_entries dir_entries_def)
  moreover have "[] \<notin> set (sorted_list_of_set (dir_entries ?k names))"
    using dir_entry_nonempty by (fastforce simp: finite_dir_entries dir_entries_def)
  moreover have "[] \<notin> set (file_entries ?k names)"
    by (auto simp: file_entries_def)
  ultimately show ?thesis using run by blast
qed

theorem full_listdir_no_embedded_slash_is_file_witness:
  "''a.txt'' \<in> set [''a.txt'', ''b/c.txt'', ''b/d/e.txt''] \<and> \<not> embedded_slash ''a.txt''
   \<and> (\<exists>dirs files. fst (full_listdir in_memory [] example_sys) = Inr (dirs, files)
         \<and> ''a.txt'' \<in> set files \<and> [] \<notin> set dirs \<and> [] \<notin> set files)"
proof -
  have p: "normalize_path [] = []" by (simp add: normalize_path_def)
  have h: "container_list_objects in_memory (Some (normalize_path [])) None example_sys
      = (Inr [''a.txt'', ''b/c.txt'', ''b/d/e.txt''],
         snd (container_list_objects in_memory (Some []) None example_sys))"
    unfolding p by (rule with_snd [OF example_listing_root])
  have e: "\<not> embedded_slash ''a.txt''" by (simp add: embedded_slash_inner)
  have "\<exists>dirs files. full_listdir in_memory [] example_sys
           = (Inr (dirs, files), snd (container_list_objects in_memory (Some []) None example_sys))
         \<and> ''a.txt'' \<in> set files \<and> [] \<notin> set dirs \<and> [] \<notin> set files"
    using full_listdir_no_embedded_slash_is_file [OF h, of "''a.txt''" "''a.txt''"] e
    by (simp add: p) blast
  then show ?thesis using e by auto
qed

text \<open>
  With an object \<open>b\<close> beside an object \<open>b/c.txt\<close>, the remainder \<open>b\<close> has no embedded
  slash and is returned as a file, and \<open>b\<close> is also returned as a directory, the entry
  of \<open>b/c.txt\<close>.
\<close>

theorem full_listdir_file_and_directory_counterexample:
  "fst (container_list_objects in_memory (Some []) None marker_sys) = Inr [''b'', ''b/c.txt'']
   \<and> drop (length (normalize_path [])) ''b'' = ''b''
   \<and> \<not> embedded_slash ''b''
   \<and> fst (full_listdir in_memory [] marker_sys) = Inr ([''b''], [''b''])"
  by (simp add: full_listdir_def full_listdir_loop_def full_listdir_step_def py_slice_def
      py_index_def normalize_path_def run_simps marker_sys_def marker_objects_def
      embedded_slash_inner)

text \<open>
  Claim C3. \<^verbatim>\<open>listdir(path)\<close> appends \<open>/\<close> to a non-empty path that does not end with
  one, and returns no directories and every name of the listing for that path with the
  first \<open>len(path)\<close> characters removed, in listing order (it raises what the listing
  raises). When the listing for \<open>b/\<close> is \<open>b/c.txt\<close>, \<open>b/d/e.txt\<close>, as it is for the three
  objects of the example, \<^verbatim>\<open>listdir("b")\<close> returns \<open>([], [c.txt, d/e.txt])\<close>.
\<close>

theorem listdir_flat:
  "normalize_path path = (if path \<noteq> [] \<and> \<not> (\<exists>p. path = p @ ''/'') then path @ ''/'' else path)
   \<and> listdir api path s =
       (case container_list_objects api None (Some (normalize_path path)) s of
          (Inl e, s') \<Rightarrow> (Inl e, s')
        | (Inr names, s') \<Rightarrow> (Inr ([], map (drop (length (normalize_path path))) names), s'))
   \<and> (container_list_objects api None (Some ''b/'') s = (Inr [''b/c.txt'', ''b/d/e.txt''], t)
        \<longrightarrow> listdir api ''b'' s = (Inr ([], [''c.txt'', ''d/e.txt'']), t))"
proof -
  have "normalize_path ''b'' = ''b/''" by (simp add: normalize_path_def endswith_slash_def)
  then have "container_list_objects api None (Some ''b/'') s = (Inr [''b/c.txt'', ''b/d/e.txt''], t)
        \<longrightarrow> listdir api ''b'' s = (Inr ([], [''c.txt'', ''d/e.txt'']), t)"
    by (simp add: listdir_eq)
  then show ?thesis using normalize_path_suffix listdir_eq by blast
qed

theorem listdir_flat_witness:
  "fst (container_list_objects in_memory None (Some ''b/'') example_sys)
     = Inr [''b/c.txt'', ''b/d/e.txt'']
   \<and> fst (listdir in_memory ''b'' example_sys) = Inr ([], [''c.txt'', ''d/e.txt''])"
proof -
  have "listdir in_memory ''b'' example_sys
      = (Inr ([], [''c.txt'', ''d/e.txt'']),
         snd (container_list_objects in_memory None (Some ''b/'') example_sys))"
    using listdir_flat [of "''b''" in_memory example_sys
        "snd (container_list_objects in_memory None (Some ''b/'') example_sys)"]
      with_snd [OF example_listing_b]
    by blast
  then show ?thesis by (simp add: example_listing_b)
qed

section \<open>Deleting and testing for existence\<close>

text \<open>
  Claim C4. \<^verbatim>\<open>delete(n)\<close> returns when \<^verbatim>\<open>self.container.delete_object(n)\<close> raises a
  \<open>ResponseError\<close> with status 404, raises unchanged whatever else that call raises
  (a \<open>ResponseError\<close> with another status, or any other exception), and returns when
  the call returns. So when a first \<^verbatim>\<open>delete(n)\<close> has returned and the remote delete of
  the second one either succeeds or reports 404, the second \<^verbatim>\<open>delete(n)\<close> returns too.
\<close>

theorem delete_swallows_404:
  "(container_delete_object api n s = (Inl (ResponseError 404 rs), s1)
      \<longrightarrow> delete api n s = (Inr (), s1))
   \<and> (container_delete_object api n s = (Inl e, s1) \<and> (\<forall>rs'. e \<noteq> ResponseError 404 rs')
      \<longrightarrow> delete api n s = (Inl e, s1))
   \<and> (container_delete_object api n s = (Inr (), s1) \<longrightarrow> delete api n s = (Inr (), s1))
   \<and> (delete api n s = (Inr (), s1)
        \<and> (fst (container_delete_object api n s1) = Inr ()
             \<or> (\<exists>rs'. fst (container_delete_object api n s1) = Inl (ResponseError 404 rs')))
      \<longrightarrow> fst (delete api n s1) = Inr ())"
  by (cases "container_delete_object api n s1")
     (auto simp: delete_def split: prod.splits sum.splits exc.splits)

theorem delete_swallows_404_witness:
  "fst (container_delete_object in_memory ''nothing'' example_sys)
       = Inl (ResponseError 404 ''Not Found'')
   \<and> fst (delete in_memory ''nothing'' example_sys) = Inr ()
   \<and> fst (delete in_memory ''a.txt'' example_sys) = Inr ()
   \<and> fst (container_delete_object in_memory ''a.txt'' (snd (delete in_memory ''a.txt'' example_sys)))
       = Inl (ResponseError 404 ''Not Found'')
   \<and> fst (delete in_memory ''a.txt'' (snd (delete in_memory ''a.txt'' example_sys))) = Inr ()
   \<and> fst (container_delete_object broken ''a.txt'' example_sys)
       = Inl (ResponseError 500 ''Internal Server Error'')
   \<and> fst (delete broken ''a.txt'' example_sys) = Inl (ResponseError 500 ''Internal Server Error'')"
proof -
  let ?s1 = "snd (delete in_memory ''a.txt'' example_sys)"
  let ?t1 = "snd (container_delete_object in_memory ''a.txt'' example_sys)"
  let ?t2 = "snd (container_delete_object broken ''a.txt'' example_sys)"
  let ?e = "ResponseError 500 ''Internal Server Error''"
  have a: "fst (container_delete_object in_memory ''a.txt'' example_sys) = Inr ()"
    by (simp add: run_simps)
  have b: "fst (container_delete_object in_memory ''a.txt'' ?s1) = Inl (ResponseError 404 ''Not Found'')"
    by (simp add: run_simps delete_def)
  have c: "fst (container_delete_object broken ''a.txt'' example_sys) = Inl ?e"
    by (simp add: run_simps broken_def)
  have e: "\<forall>rs'. ?e \<noteq> ResponseError 404 rs'" by simp
  have d1: "delete in_memory ''a.txt'' example_sys = (Inr (), ?t1)"
    using delete_swallows_404 [of in_memory "''a.txt''" example_sys "[]" ?t1] with_snd [OF a]
    by blast
  then have s1: "delete in_memory ''a.txt'' example_sys = (Inr (), ?s1)" by simp
  have d2: "fst (delete in_memory ''a.txt'' ?s1) = Inr ()"
    using delete_swallows_404 [of in_memory "''a.txt''" example_sys "[]" ?s1] s1 b
    by blast
  have d3: "delete broken ''a.txt'' example_sys = (Inl ?e, ?t2)"
    using delete_swallows_404 [of broken "''a.txt''" example_sys "[]" ?t2 ?e] with_snd [OF c] e
    by blast
  have g: "fst (container_delete_object in_memory ''nothing'' example_sys)
      = Inl (ResponseError 404 ''Not Found'')"
    by (simp add: run_simps)
  have d0: "delete in_memory ''nothing'' example_sys
      = (Inr (), snd (container_delete_object in_memory ''nothing'' example_sys))"
    using delete_swallows_404 [of in_memory "''nothing''" example_sys "''Not Found''"
        "snd (container_delete_object in_memory ''nothing'' example_sys)"] with_snd [OF g]
    by blast
  have f0: "fst (delete in_memory ''nothing'' example_sys) = Inr ()"
    unfolding d0 by (rule fst_conv)
  have f1: "fst (delete in_memory ''a.txt'' example_sys) = Inr ()"
    unfolding d1 by (rule fst_conv)
  have f3: "fst (delete broken ''a.txt'' example_sys) = Inl ?e"
    unfolding d3 by (rule fst_conv)
  show ?thesis using g f0 f1 b d2 c f3 by (intro conjI)
qed

text \<open>
  Claim C5. \<^verbatim>\<open>exists(n)\<close> returns \<open>False\<close> exactly when the fetch \<^verbatim>\<open>_get_cloud_obj(n)\<close>
  raises \<open>NoSuchObject\<close>, returns \<open>True\<close> whenever the fetch returns, and raises unchanged
  every other exception of the fetch; it leaves the state the fetch leaves.
\<close>

theorem exists_outcomes:
  "((fst (exists api n s) = Inr False) = (fst (get_cloud_obj api n s) = Inl NoSuchObject))
   \<and> ((\<exists>obj. fst (get_cloud_obj api n s) = Inr obj) \<longrightarrow> fst (exists api n s) = Inr True)
   \<and> (\<forall>e. fst (get_cloud_obj api n s) = Inl e \<and> e \<noteq> NoSuchObject \<longrightarrow> fst (exists api n s) = Inl e)
   \<and> snd (exists api n s) = snd (get_cloud_obj api n s)"
  by (cases "get_cloud_obj api n s")
     (auto simp: exists_def split: prod.splits sum.splits exc.splits)

theorem exists_outcomes_witness:
  "fst (get_cloud_obj in_memory ''nothing'' example_sys) = Inl NoSuchObject
   \<and> fst (exists in_memory ''nothing'' example_sys) = Inr False
   \<and> (\<exists>obj. fst (get_cloud_obj in_memory ''a.txt'' example_sys) = Inr obj)
   \<and> fst (exists in_memory ''a.txt'' example_sys) = Inr True
   \<and> fst (get_cloud_obj broken ''a.txt'' example_sys) = Inl (ResponseError 500 ''Internal Server Error'')
   \<and> fst (exists broken ''a.txt'' example_sys) = Inl (ResponseError 500 ''Internal Server Error'')"
proof -
  have a: "fst (get_cloud_obj in_memory ''nothing'' example_sys) = Inl NoSuchObject"
    by (simp add: run_simps)
  have b: "\<exists>obj. fst (get_cloud_obj in_memory ''a.txt'' example_sys) = Inr obj"
    by (simp add: run_simps)
  have c: "fst (get_cloud_obj broken ''a.txt'' example_sys)
      = Inl (ResponseError 500 ''Internal Server Error'')"
    by (simp add: run_simps broken_def)
  show ?thesis
    using exists_outcomes [of in_memory "''nothing''" example_sys]
      exists_outcomes [of in_memory "''a.txt''" example_sys]
      exists_outcomes [of broken "''a.txt''" example_sys] a b c
    by simp
qed

section \<open>Reading through a handle\<close>

lemma get_file_cases:
  "get_file api (f, s) =
     (case p_file f of
        Some obj \<Rightarrow> (Inr obj, (f, s))
      | None \<Rightarrow> (case get_cloud_obj api (f_name f) s of
                   (Inl e, s') \<Rightarrow> (Inl e, (f, s'))
                 | (Inr obj, s') \<Rightarrow> (Inr obj, (f\<lparr>p_file := Some obj\<rparr>, s'))))"
  by (simp add: get_file_def andthen_def returns_def on_storage_def assign_file_def
      file_attribute_def split: option.splits prod.splits sum.splits)


lemma read_cases:
  "read api nb (f, s) =
     (case get_file api (f, s) of
        (Inl e, fs) \<Rightarrow> (Inl e, fs)
      | (Inr obj, (f0, s0)) \<Rightarrow>
          (case cf_read api obj (or_minus_one nb) (p_pos f0) (remote s0) of
             (Inl e, w) \<Rightarrow>
               (Inl e, (f0, s0\<lparr>remote := w,
                  calls := calls s0 @ [Read obj (or_minus_one nb) (p_pos f0) (Inl e)]\<rparr>))
           | (Inr d, w) \<Rightarrow>
               (Inr d, (f0\<lparr>p_pos := p_pos f0 + int (length d)\<rparr>, s0\<lparr>remote := w,
                  calls := calls s0 @ [Read obj (or_minus_one nb) (p_pos f0) (Inr d)]\<rparr>))))"
  by (simp add: read_def andthen_def returns_def on_storage_def assign_file_def get_pos_def
      file_attribute_def remote_call_def split: option.splits prod.splits sum.splits)

lemma get_size_cases:
  "get_size api (f, s) =
     (case p_size f of
        Some v \<Rightarrow> (Inr v, (f, s))
      | None \<Rightarrow> (case storage_size api (f_name f) s of
                   (Inl e, s') \<Rightarrow> (Inl e, (f, s'))
                 | (Inr v, s') \<Rightarrow> (Inr v, (f\<lparr>p_size := Some v\<rparr>, s'))))"
  by (simp add: get_size_def andthen_def returns_def on_storage_def assign_file_def
      file_attribute_def split: option.splits prod.splits sum.splits)


lemmas file_run_simps =
  read_def get_file_def get_size_def get_pos_def on_storage_def assign_file_def
  file_attribute_def storage_size_def new_file_def or_minus_one_def object_read_def
  example_file_def run_simps











section \<open>The states of a handle\<close>

text \<open>
  Claim C9. \<^verbatim>\<open>close()\<close> sets the cursor to 0 and changes nothing else, so a bound
  object stays bound. \<^verbatim>\<open>open()\<close> does exactly the same: it neither binds nor clears the
  reference. Only the assignment \<^verbatim>\<open>file = None\<close> clears it; \<^verbatim>\<open>seek\<close>, reading or setting
  the size and \<^verbatim>\<open>read\<close> keep a bound reference. \<^verbatim>\<open>closed\<close> is true exactly when no
  reference is bound: it is true on a new handle after \<^verbatim>\<open>open()\<close>, and after a
  \<^verbatim>\<open>read\<close> it is true only when the handle was unbound and the fetch of the object
  raised.
\<close>

theorem close_keeps_reference:
  "close (f, s) = (Inr (), (f\<lparr>p_pos := 0\<rparr>, s))
   \<and> open_file (f, s) = (Inr (), (f\<lparr>p_pos := 0\<rparr>, s))
   \<and> set_file None (f, s) = (Inr (), (f\<lparr>p_file := None\<rparr>, s))
   \<and> closed (f, s) = (Inr (p_file f = None), (f, s))
   \<and> (p_file f \<noteq> None \<longrightarrow>
         p_file (fst (snd (seek pos (f, s)))) = p_file f
       \<and> p_file (fst (snd (set_size v (f, s)))) = p_file f
       \<and> p_file (fst (snd (get_size api (f, s)))) = p_file f
       \<and> p_file (fst (snd (read api nb (f, s)))) = p_file f)
   \<and> fst (closed (snd (open_file (new_file name, s)))) = Inr True
   \<and> fst (closed (snd (read api nb (f, s))))
       = Inr (p_file f = None \<and> (\<exists>e. fst (get_cloud_obj api (f_name f) s) = Inl e))"
proof -
  have "p_file (fst (snd (get_size api (f, s)))) = p_file f"
    by (simp add: get_size_cases split: option.splits prod.splits sum.splits)
  moreover have "p_file f \<noteq> None \<longrightarrow> p_file (fst (snd (read api nb (f, s)))) = p_file f"
    by (auto simp: read_cases get_file_cases split: option.splits prod.splits sum.splits)
  moreover have "fst (closed (snd (read api nb (f, s))))
       = Inr (p_file f = None \<and> (\<exists>e. fst (get_cloud_obj api (f_name f) s) = Inl e))"
    by (auto simp: read_cases get_file_cases closed_def split: option.splits prod.splits sum.splits)
  ultimately show ?thesis
    by (simp add: close_def open_file_def set_file_def closed_def seek_def set_size_def
        assign_file_def new_file_def)
qed

theorem close_keeps_reference_witness:
  "p_file (fst example_file_read) \<noteq> None
   \<and> p_file (fst (snd (close example_file_read))) = p_file (fst example_file_read)
   \<and> p_file (fst (snd (seek 3 example_file_read))) = p_file (fst example_file_read)
   \<and> p_file (fst (snd (read in_memory (Some 2) example_file_read)))
       = p_file (fst example_file_read)
   \<and> fst (closed (snd (close example_file_read))) = Inr False
   \<and> fst (closed (snd (set_file None example_file_read))) = Inr True"
proof -
  obtain f s where fs: "example_file_read = (f, s)" by (cases example_file_read)
  have "\<exists>obj. fst (get_cloud_obj in_memory (f_name example_file) example_sys) = Inr obj"
    by (simp add: file_run_simps)
  then have "fst (closed (f, s)) = Inr False"
    using close_keeps_reference [where f = example_file and s = example_sys and api = in_memory
        and nb = None]
    by (auto simp: example_file_read_def [symmetric] fs)
  then have "p_file f \<noteq> None"
    using close_keeps_reference [where f = f and s = s] by simp
  then show ?thesis
    using close_keeps_reference [where f = f and s = s and pos = 3 and api = in_memory
        and nb = "Some 2"]
      close_keeps_reference [where f = "f\<lparr>p_pos := 0\<rparr>" and s = s]
      close_keeps_reference [where f = "f\<lparr>p_file := None\<rparr>" and s = s]
    by (simp add: fs)
qed

text \<open>After a read, \<^verbatim>\<open>open()\<close> leaves the handle bound and not closed.\<close>

theorem open_keeps_reference_counterexample:
  "p_file (fst example_file_read) \<noteq> None
   \<and> p_file (fst (snd (open_file example_file_read))) \<noteq> None
   \<and> fst (closed (snd (open_file example_file_read))) = Inr False"
  by (simp add: example_file_read_def file_run_simps open_file_def closed_def)

section \<open>Rules for the adapter's actions\<close>

lemma wp_returns: "wp (returns a) Q E = Q a"
  by (rule ext) (simp add: wp_def returns_def)

lemma wp_andthen: "wp (andthen m f) Q E = wp m (\<lambda>a. wp (f a) Q E) E"
  by (rule ext) (simp add: wp_def andthen_def split: prod.splits sum.splits)

lemma wp_remote_call:
  "wp (remote_call ev f) Q E =
     (\<lambda>s. case f (remote s) of
        (Inl e, w) \<Rightarrow> E (s\<lparr>remote := w, calls := calls s @ [ev (Inl e)]\<rparr>)
      | (Inr a, w) \<Rightarrow> Q a (s\<lparr>remote := w, calls := calls s @ [ev (Inr a)]\<rparr>))"
  by (rule ext) (simp add: wp_def remote_call_def split: prod.splits sum.splits)

lemma wp_assign: "wp (assign upd) Q E = (\<lambda>s. Q () (s\<lparr>adapter := upd (adapter s)\<rparr>))"
  by (rule ext) (simp add: wp_def assign_def)

lemma wp_attribute:
  "wp (attribute sel) Q E = (\<lambda>s. case sel (adapter s) of None \<Rightarrow> E s | Some v \<Rightarrow> Q v s)"
  by (rule ext) (simp add: wp_def attribute_def split: option.splits)

lemma wp_if: "wp (if b then m else n) Q E = (if b then wp m Q E else wp n Q E)"
  by simp

lemma wp_mono:
  "wp m Q' E' s \<Longrightarrow> (\<And>a t. Q' a t \<Longrightarrow> Q a t) \<Longrightarrow> (\<And>t. E' t \<Longrightarrow> E t) \<Longrightarrow> wp m Q E s"
  by (auto simp: wp_def split: prod.splits sum.splits)

lemma wp_snd: "wp m (\<lambda>_. P) P s = P (snd (m s))"
  by (simp add: wp_def split: prod.splits sum.splits)

lemmas wp_simps = wp_returns wp_andthen wp_remote_call wp_assign wp_attribute wp_if

lemma wp_state: "m s = n s \<Longrightarrow> wp m Q E s = wp n Q E s"
  by (simp add: wp_def)

lemma wp_get_connection:
  "wp (get_connection api) Q E s =
     wp (andthen
          (if p_connection (adapter s) = None then
             andthen
               (remote_call GetConnection
                  (cf_get_connection api (username (adapter s)) (api_key (adapter s))
                     (auth_url (adapter s)) (timeout (adapter s)) (use_servicenet (adapter s))
                     (connection_kwargs (adapter s))))
               (\<lambda>c. assign (\<lambda>a. a\<lparr>p_connection := Some c\<rparr>))
           else returns ())
          (\<lambda>_. attribute p_connection)) Q E s"
  by (rule wp_state) (simp add: get_connection_def Let_def)

lemma wp_get_container:
  "wp (get_container api) Q E s =
     wp (andthen
          (if p_container (adapter s) = None then
             andthen (get_connection api)
               (\<lambda>conn. andthen (attribute (\<lambda>a. Some (container_name a)))
                  (\<lambda>n. andthen (remote_call (GetContainer conn n) (cf_get_container api conn n))
                     (set_container api)))
           else returns ())
          (\<lambda>_. attribute p_container)) Q E s"
  by (rule wp_state) (simp add: get_container_def)

lemma quiet_refl: "quiet p s s"
  by (simp add: quiet_def)

lemma quiet_trans: "quiet p s t \<Longrightarrow> quiet p t u \<Longrightarrow> quiet p s u"
  by (simp add: quiet_def)

lemma quiet_call: "quiet p s t \<Longrightarrow> \<not> p e \<Longrightarrow> quiet p s (t\<lparr>remote := w, calls := calls t @ [e]\<rparr>)"
  by (simp add: quiet_def)

lemma quiet_assign: "quiet p s t \<Longrightarrow> quiet p s (t\<lparr>adapter := a\<rparr>)"
  by (simp add: quiet_def)

lemma get_connection_quiet:
  assumes "\<And>r. \<not> p (GetConnection r)" and "quiet p s t"
    and "\<And>c u. quiet p s u \<Longrightarrow> Q c u" and "\<And>u. quiet p s u \<Longrightarrow> E u"
  shows "wp (get_connection api) Q E t"
  using assms(1,2)
  by (auto simp: wp_get_connection wp_simps quiet_def intro!: assms(3,4)
      split: prod.splits sum.splits option.splits)

lemma set_container_quiet:
  assumes "\<And>r. \<not> p (IsPublic c r)" "\<And>r. \<not> p (MakePublic c r)" and "quiet p s t"
    and "\<And>u. quiet p s u \<Longrightarrow> Q () u" and "\<And>u. quiet p s u \<Longrightarrow> E u"
  shows "wp (set_container api c) Q E t"
  using assms(1,2,3)
  by (auto simp: set_container_def wp_simps quiet_def intro!: assms(4,5)
      split: prod.splits sum.splits option.splits)

lemma get_container_quiet:
  assumes p: "\<And>r. \<not> p (GetConnection r)" "\<And>conn n r. \<not> p (GetContainer conn n r)"
    "\<And>c r. \<not> p (IsPublic c r)" "\<And>c r. \<not> p (MakePublic c r)"
    and t: "quiet p s t"
    and Q: "\<And>c u. quiet p s u \<Longrightarrow> Q c u" and E: "\<And>u. quiet p s u \<Longrightarrow> E u"
  shows "wp (get_container api) Q E t"
proof (cases "p_container (adapter t)")
  case (Some c)
  then show ?thesis using t Q by (simp add: wp_get_container wp_simps)
next
  case None
  have "wp (get_connection api)
     (\<lambda>conn. wp (attribute (\<lambda>a. Some (container_name a)))
        (\<lambda>n. wp (remote_call (GetContainer conn n) (cf_get_container api conn n))
           (\<lambda>c. wp (set_container api c) (\<lambda>_. wp (attribute p_container) Q E) E) E) E) E t"
  proof (rule get_connection_quiet [OF p(1) t])
    show "quiet p s u \<Longrightarrow> E u" for u by (rule E)
    fix conn u assume u: "quiet p s u"
    have "wp (set_container api c) (\<lambda>_. wp (attribute p_container) Q E) E
            (u\<lparr>remote := w, calls := calls u @ [GetContainer conn n (Inr c)]\<rparr>)" for c w n
      by (rule set_container_quiet [OF p(3) p(4) quiet_call [OF u p(2)]])
         (auto simp: wp_attribute Q E split: option.splits)
    then show "wp (attribute (\<lambda>a. Some (container_name a)))
        (\<lambda>n. wp (remote_call (GetContainer conn n) (cf_get_container api conn n))
           (\<lambda>c. wp (set_container api c) (\<lambda>_. wp (attribute p_container) Q E) E) E) E u"
      using u p(2) by (auto simp: wp_attribute wp_remote_call quiet_def intro!: E split: prod.splits sum.splits)
  qed
  then show ?thesis using None by (simp add: wp_get_container wp_andthen)
qed

lemma get_cloud_obj_fetched:
  "wp (get_cloud_obj api n) (\<lambda>_ t. fetched (calls t) = fetched (calls s) + 1)
     (\<lambda>t. fetched (calls t) = fetched (calls s)) s"
  unfolding get_cloud_obj_def wp_andthen
  by (rule get_container_quiet [of is_fetched s])
     (auto simp: wp_remote_call quiet_def fetched_def split: prod.splits sum.splits)

lemma storage_size_fetched:
  "storage_size api n s = (r, t) \<Longrightarrow>
     fetched (calls t) = fetched (calls s) + (case r of Inl e \<Rightarrow> 0 | Inr v \<Rightarrow> 1)"
  using get_cloud_obj_fetched [of api n s]
  by (auto simp: storage_size_def wp_def andthen_def returns_def split: prod.splits sum.splits)

section \<open>The memoized size\<close>

lemma size_accesses_memo: "p_size f = Some v \<Longrightarrow> size_accesses api k (f, s) = (f, s)"
  by (induction k) (simp_all add: get_size_cases)

lemma get_size_fetched:
  "get_size api (f, s) = (r, (f', s')) \<Longrightarrow>
     (p_size f' \<noteq> None \<and> fetched (calls s') \<le> fetched (calls s) + 1)
     \<or> (p_size f' = None \<and> fetched (calls s') = fetched (calls s))"
  by (auto simp: get_size_cases split: option.splits prod.splits sum.splits
      dest: storage_size_fetched)

lemma size_accesses_fetched:
  "fetched (calls (snd (size_accesses api k (f, s)))) \<le> fetched (calls s) + 1"
proof (induction k arbitrary: f s)
  case 0
  then show ?case by simp
next
  case (Suc k)
  obtain r f' s' where g: "get_size api (f, s) = (r, (f', s'))"
    by (cases "get_size api (f, s)") auto
  show ?case
  proof (cases "p_size f'")
    case None
    then have "fetched (calls s') = fetched (calls s)"
      using get_size_fetched [OF g] by auto
    then show ?thesis using Suc.IH [of f' s'] g by simp
  next
    case (Some v)
    then have "fetched (calls s') \<le> fetched (calls s) + 1"
      using get_size_fetched [OF g] by auto
    then show ?thesis using g size_accesses_memo [OF Some, of api k s'] by simp
  qed
qed

text \<open>
  Claim C7. An access to \<^verbatim>\<open>size\<close> with nothing memoized calls \<^verbatim>\<open>storage.size(name)\<close>; when
  that returns \<open>v\<close>, the access returns \<open>v\<close> and memoizes it, and when it raises, the
  access raises the same and memoizes nothing, so that the next access fetches again.
  With \<open>v\<close> memoized, an access returns \<open>v\<close> and leaves the handle, the adapter, the
  service and the log of calls as they are, however often it is repeated. An assignment
  of \<open>v\<close> to \<^verbatim>\<open>size\<close> memoizes \<open>v\<close>, after which no access fetches. Over any number of
  accesses, at most one fetch returns.
\<close>

theorem size_fetched_once:
  "(p_size f = None \<and> storage_size api (f_name f) s = (Inr v, t)
      \<longrightarrow> get_size api (f, s) = (Inr v, (f\<lparr>p_size := Some v\<rparr>, t)))
   \<and> (p_size f = None \<and> storage_size api (f_name f) s = (Inl e, t)
      \<longrightarrow> get_size api (f, s) = (Inl e, (f, t)))
   \<and> (p_size f = Some v
      \<longrightarrow> get_size api (f, s) = (Inr v, (f, s)) \<and> size_accesses api k (f, s) = (f, s))
   \<and> get_size api (snd (set_size v (f, s))) = (Inr v, (f\<lparr>p_size := Some v\<rparr>, s))
   \<and> size_accesses api k (snd (set_size v (f, s))) = (f\<lparr>p_size := Some v\<rparr>, s)
   \<and> fetched (calls (snd (size_accesses api k (f, s)))) \<le> fetched (calls s) + 1"
  using size_accesses_fetched [of api k f s] size_accesses_memo [of "f\<lparr>p_size := Some v\<rparr>" v api k s]
    size_accesses_memo [of f v api k s]
  by (simp add: get_size_cases set_size_def assign_file_def)

theorem size_fetched_once_witness:
  "fst (get_size in_memory (example_file, example_sys)) = Inr 7
   \<and> fst (get_size broken (example_file, example_sys))
       = Inl (ResponseError 500 ''Internal Server Error'')
   \<and> p_size (fst (snd (get_size broken (example_file, example_sys)))) = None
   \<and> get_size in_memory (example_file\<lparr>p_size := Some 7\<rparr>, example_sys)
       = (Inr 7, (example_file\<lparr>p_size := Some 7\<rparr>, example_sys))
   \<and> fetched (calls (snd (size_accesses in_memory 3 (example_file, example_sys)))) \<le> 1
   \<and> fst (get_size in_memory (snd (set_size 42 (example_file, example_sys)))) = Inr 42"
proof -
  let ?e = "ResponseError 500 ''Internal Server Error''"
  have a: "fst (storage_size in_memory (f_name example_file) example_sys) = Inr 7"
    by (simp add: file_run_simps)
  have b: "fst (storage_size broken (f_name example_file) example_sys) = Inl ?e"
    by (simp add: file_run_simps broken_def)
  have n: "p_size example_file = None" by (simp add: example_file_def new_file_def)
  have "get_size in_memory (example_file, example_sys)
      = (Inr 7, (example_file\<lparr>p_size := Some 7\<rparr>,
          snd (storage_size in_memory (f_name example_file) example_sys)))"
    using size_fetched_once [where f = example_file and api = in_memory and s = example_sys
        and v = 7 and t = "snd (storage_size in_memory (f_name example_file) example_sys)"]
      with_snd [OF a] n
    by blast
  then have "fst (get_size in_memory (example_file, example_sys)) = Inr 7" by simp
  moreover have "get_size broken (example_file, example_sys)
      = (Inl ?e, (example_file, snd (storage_size broken (f_name example_file) example_sys)))"
    using size_fetched_once [where f = example_file and api = broken and s = example_sys
        and e = ?e and t = "snd (storage_size broken (f_name example_file) example_sys)"]
      with_snd [OF b] n
    by blast
  then have "fst (get_size broken (example_file, example_sys)) = Inl ?e"
    "p_size (fst (snd (get_size broken (example_file, example_sys)))) = None"
    using n by simp_all
  moreover have "get_size in_memory (example_file\<lparr>p_size := Some 7\<rparr>, example_sys)
       = (Inr 7, (example_file\<lparr>p_size := Some 7\<rparr>, example_sys))"
    using size_fetched_once [where f = "example_file\<lparr>p_size := Some 7\<rparr>" and api = in_memory
        and s = example_sys and v = 7]
    by simp
  moreover have "fetched (calls (snd (size_accesses in_memory 3 (example_file, example_sys)))) \<le> 1"
    using size_fetched_once [where f = example_file and api = in_memory and s = example_sys and k = 3]
    by (simp add: fetched_def example_sys_def start_def)
  moreover have "fst (get_size in_memory (snd (set_size 42 (example_file, example_sys)))) = Inr 42"
    using size_fetched_once [where f = example_file and api = in_memory and s = example_sys and v = 42]
    by simp
  ultimately show ?thesis by (intro conjI)
qed

text \<open>
  The handle of an object that does not exist fetches at every access: two accesses,
  two calls of \<^verbatim>\<open>get_object\<close>.
\<close>

theorem size_fetched_twice_counterexample:
  "fst (get_size in_memory (new_file ''nothing'', example_sys)) = Inl NoSuchObject
   \<and> fetches (calls example_sys) = 0
   \<and> fetches (calls (snd (size_accesses in_memory 2 (new_file ''nothing'', example_sys)))) = 2"
  by (simp add: numeral_2_eq_2 fetches_def file_run_simps)

section \<open>The container is public before its URI is asked for\<close>

lemma ensured_append: "ensured (xs @ ys) = ensured xs \<union> ensured ys"
  by (simp add: ensured_def)

lemma ensured_single: "ensured [e] = made_public e"
  by (simp add: ensured_def)

lemma ensured_Cons: "ensured (e # xs) = made_public e \<union> ensured xs"
  by (simp add: ensured_def)

lemma public_before_uri_append:
  "public_before_uri P (xs @ ys) = (public_before_uri P xs \<and> public_before_uri (P \<union> ensured xs) ys)"
proof (induction xs arbitrary: P)
  case Nil
  then show ?case by (simp add: ensured_def)
next
  case (Cons e xs)
  show ?case
    by (cases e) (simp_all add: Cons.IH ensured_Cons Un_assoc)
qed

lemma public_before_uri_call:
  "public_before_uri {} (tr @ [e]) =
     (public_before_uri {} tr \<and> (\<forall>c r. e = PublicUri c r \<longrightarrow> c \<in> ensured tr))"
  by (cases e) (auto simp: public_before_uri_append)

lemma invariant_call:
  "public_invariant cnames s \<Longrightarrow> \<forall>c r. e = PublicUri c r \<longrightarrow> c \<in> ensured (calls s)
     \<Longrightarrow> public_invariant cnames (s\<lparr>remote := w, calls := calls s @ [e]\<rparr>)"
  by (auto simp: public_invariant_def public_before_uri_call ensured_append
      split: option.splits)

lemma invariant_connection:
  "public_invariant cnames s \<Longrightarrow> public_invariant cnames (s\<lparr>adapter := (adapter s)\<lparr>p_connection := v\<rparr>\<rparr>)"
  by (auto simp: public_invariant_def split: option.splits)

lemma get_connection_invariant:
  assumes "public_invariant cnames s"
    and "\<And>c t. public_invariant cnames t \<Longrightarrow> p_container (adapter t) = p_container (adapter s) \<Longrightarrow> Q c t"
    and "\<And>t. public_invariant cnames t \<Longrightarrow> p_container (adapter t) = p_container (adapter s) \<Longrightarrow> E t"
  shows "wp (get_connection api) Q E s"
  using assms(1)
  by (auto simp: wp_get_connection wp_simps public_invariant_def public_before_uri_append
      ensured_append ensured_Cons intro!: assms(2,3) split: prod.splits sum.splits option.splits)

lemma set_container_invariant:
  assumes "public_invariant cnames s"
    and "\<And>t. public_invariant cnames t \<Longrightarrow> p_container (adapter t) = Some c
            \<Longrightarrow> p_container_public_uri (adapter t) = None \<Longrightarrow> Q () t"
    and "\<And>t. public_invariant cnames t \<Longrightarrow> adapter t = adapter s \<Longrightarrow> E t"
  shows "wp (set_container api c) Q E s"
  using assms(1)
  by (auto simp: set_container_def wp_simps public_invariant_def public_before_uri_append
      ensured_append ensured_Cons intro!: assms(2,3) split: prod.splits sum.splits option.splits)

lemma wp_get_container_url:
  "wp (get_container_url api cnames) Q E s =
     wp (andthen
          (if p_container_public_uri (adapter s) = None then
             andthen (get_container api)
               (\<lambda>c. andthen (remote_call (PublicUri c) (cf_public_uri api c))
                  (\<lambda>u. assign (\<lambda>a. a\<lparr>p_container_public_uri := Some u\<rparr>)))
           else returns ())
          (\<lambda>_. andthen (attribute p_container_public_uri)
             (\<lambda>u. andthen
                (case cnames u of
                   Some v \<Rightarrow> assign (\<lambda>a. a\<lparr>p_container_public_uri := Some v\<rparr>)
                 | None \<Rightarrow> returns ())
                (\<lambda>_. attribute p_container_public_uri)))) Q E s"
  by (rule wp_state) (simp add: get_container_url_def)

lemma get_container_invariant:
  fixes api :: "'w cloudfiles"
  assumes inv: "public_invariant cnames s"
    and Q: "\<And>c t. public_invariant cnames t \<Longrightarrow> p_container (adapter t) = Some c \<Longrightarrow> Q c t"
    and E: "\<And>t. public_invariant cnames t \<Longrightarrow> E t"
  shows "wp (get_container api) Q E s"
proof (cases "p_container (adapter s)")
  case (Some c)
  then show ?thesis using inv Q by (simp add: wp_get_container wp_simps)
next
  case None
  have "wp (get_connection api)
     (\<lambda>conn. wp (attribute (\<lambda>a. Some (container_name a)))
        (\<lambda>n. wp (remote_call (GetContainer conn n) (cf_get_container api conn n))
           (\<lambda>c. wp (set_container api c) (\<lambda>_. wp (attribute p_container) Q E) E) E) E) E s"
  proof (rule get_connection_invariant [OF inv])
    show "public_invariant cnames t \<Longrightarrow> E t" for t by (rule E)
    fix conn and t :: "'w sys" assume t: "public_invariant cnames t"
    have "wp (set_container api c) (\<lambda>_. wp (attribute p_container) Q E) E
            (t\<lparr>remote := w, calls := calls t @ [GetContainer conn n (Inr c)]\<rparr>)"
      for c n and w :: 'w
      by (rule set_container_invariant [OF invariant_call [OF t]])
         (auto simp: wp_attribute Q E split: option.splits)
    moreover have "E (t\<lparr>remote := w, calls := calls t @ [GetContainer conn n (Inl e)]\<rparr>)"
      for n e and w :: 'w
      by (rule E [OF invariant_call [OF t]]) simp
    ultimately show "wp (attribute (\<lambda>a. Some (container_name a)))
        (\<lambda>n. wp (remote_call (GetContainer conn n) (cf_get_container api conn n))
           (\<lambda>c. wp (set_container api c) (\<lambda>_. wp (attribute p_container) Q E) E) E) E t"
      by (auto simp: wp_attribute wp_remote_call split: prod.splits sum.splits)
  qed
  then show ?thesis using None by (simp add: wp_get_container wp_andthen)
qed

lemma invariant_uri_call:
  "public_invariant cnames t \<Longrightarrow> p_container (adapter t) = Some c \<Longrightarrow>
     public_invariant cnames (t\<lparr>remote := w, calls := calls t @ [PublicUri c r]\<rparr>)"
  by (rule invariant_call) (auto simp: public_invariant_def)

lemma invariant_cache:
  "public_invariant cnames t \<Longrightarrow> p_container (adapter t) = Some c \<Longrightarrow>
     PublicUri c (Inr u0) \<in> set (calls t) \<Longrightarrow> derived cnames u0 u \<Longrightarrow>
     public_invariant cnames (t\<lparr>adapter := (adapter t)\<lparr>p_container_public_uri := Some u\<rparr>\<rparr>)"
  by (auto simp: public_invariant_def)

lemma invariant_rewrite:
  assumes "public_invariant cnames t" and "p_container_public_uri (adapter t) = Some u"
    and "cnames u = Some v"
  shows "public_invariant cnames (t\<lparr>adapter := (adapter t)\<lparr>p_container_public_uri := Some v\<rparr>\<rparr>)"
  using assms by (auto simp: public_invariant_def split: option.splits intro: derived_step)

lemma get_container_url_tail:
  assumes inv: "public_invariant cnames t" and c: "p_container_public_uri (adapter t) \<noteq> None"
    and Q: "\<And>u t. public_invariant cnames t \<Longrightarrow> p_container_public_uri (adapter t) = Some u \<Longrightarrow> Q u t"
  shows "wp (attribute p_container_public_uri)
          (\<lambda>u. wp (case cnames u of
                     Some v \<Rightarrow> assign (\<lambda>a. a\<lparr>p_container_public_uri := Some v\<rparr>)
                   | None \<Rightarrow> returns ())
                  (\<lambda>_. wp (attribute p_container_public_uri) Q E) E) E t"
proof -
  obtain u where u: "p_container_public_uri (adapter t) = Some u" using c by auto
  show ?thesis
  proof (cases "cnames u")
    case None
    then show ?thesis using u inv Q by (simp add: wp_simps)
  next
    case (Some v)
    have "Q v (t\<lparr>adapter := (adapter t)\<lparr>p_container_public_uri := Some v\<rparr>\<rparr>)"
      by (rule Q [OF invariant_rewrite [OF inv u Some]]) simp
    then show ?thesis using u Some by (simp add: wp_simps)
  qed
qed

lemma get_container_url_invariant:
  fixes api :: "'w cloudfiles"
  assumes inv: "public_invariant cnames s"
    and Q: "\<And>u t. public_invariant cnames t \<Longrightarrow> p_container_public_uri (adapter t) = Some u \<Longrightarrow> Q u t"
    and E: "\<And>t. public_invariant cnames t \<Longrightarrow> E t"
  shows "wp (get_container_url api cnames) Q E s"
proof (cases "p_container_public_uri (adapter s)")
  case (Some u)
  then show ?thesis
    using get_container_url_tail [where E = E, OF inv _ Q] by (simp add: wp_get_container_url wp_simps)
next
  case None
  let ?tail = "wp (attribute p_container_public_uri)
          (\<lambda>u. wp (case cnames u of
                     Some v \<Rightarrow> assign (\<lambda>a. a\<lparr>p_container_public_uri := Some v\<rparr>)
                   | None \<Rightarrow> returns ())
                  (\<lambda>_. wp (attribute p_container_public_uri) Q E) E) E"
  have "wp (get_container api)
      (\<lambda>c. wp (remote_call (PublicUri c) (cf_public_uri api c))
         (\<lambda>u. wp (assign (\<lambda>a. a\<lparr>p_container_public_uri := Some u\<rparr>)) (\<lambda>_. ?tail) E) E) E s"
  proof (rule get_container_invariant [OF inv])
    show "public_invariant cnames t \<Longrightarrow> E t" for t by (rule E)
    fix c and t :: "'w sys"
    assume t: "public_invariant cnames t" and c: "p_container (adapter t) = Some c"
    have ok: "?tail (t\<lparr>remote := w, calls := calls t @ [PublicUri c (Inr u)],
                      adapter := (adapter t)\<lparr>p_container_public_uri := Some u\<rparr>\<rparr>)"
      for u and w :: 'w
    proof -
      let ?t1 = "t\<lparr>remote := w, calls := calls t @ [PublicUri c (Inr u)]\<rparr>"
      have "public_invariant cnames (?t1\<lparr>adapter := (adapter ?t1)\<lparr>p_container_public_uri := Some u\<rparr>\<rparr>)"
        by (rule invariant_cache [where ?u0.0 = u and u = u and c = c, OF invariant_uri_call [OF t c]])
           (simp_all add: c derived_refl)
      then show ?thesis
        by (intro get_container_url_tail [OF _ _ Q]) simp_all
    qed
    have bad: "E (t\<lparr>remote := w, calls := calls t @ [PublicUri c (Inl e)]\<rparr>)" for e and w :: 'w
      by (rule E [OF invariant_uri_call [OF t c]])
    show "wp (remote_call (PublicUri c) (cf_public_uri api c))
         (\<lambda>u. wp (assign (\<lambda>a. a\<lparr>p_container_public_uri := Some u\<rparr>)) (\<lambda>_. ?tail) E) E t"
      using ok bad by (simp add: wp_remote_call wp_assign split: prod.splits sum.splits)
  qed
  then show ?thesis using None by (simp add: wp_get_container_url wp_andthen)
qed

lemma invariant_wp_snd:
  "wp m (\<lambda>_. public_invariant cnames) (public_invariant cnames) s
     \<Longrightarrow> public_invariant cnames (snd (m s))"
  by (simp add: wp_snd)

lemma on_container_invariant:
  fixes api :: "'w cloudfiles"
  assumes inv: "public_invariant cnames s" and ev: "\<And>c r x u. ev c r \<noteq> PublicUri x u"
  shows "wp (andthen (get_container api) (\<lambda>c. remote_call (ev c) (f c)))
           (\<lambda>_. public_invariant cnames) (public_invariant cnames) s"
  unfolding wp_andthen
proof (rule get_container_invariant [OF inv])
  fix c and t :: "'w sys" assume t: "public_invariant cnames t"
  have "public_invariant cnames (t\<lparr>remote := w, calls := calls t @ [ev c r]\<rparr>)" for r and w :: 'w
    by (rule invariant_call [OF t]) (simp add: ev)
  then show "wp (remote_call (ev c) (f c)) (\<lambda>_. public_invariant cnames) (public_invariant cnames) t"
    by (simp add: wp_remote_call split: prod.splits sum.splits)
qed

lemma wp_result_free:
  "wp m (\<lambda>_. P) P s \<Longrightarrow> snd (n s) = snd (m s) \<Longrightarrow> wp n (\<lambda>_. P) P s"
  by (simp add: wp_snd)

lemma step_invariant:
  fixes api :: "'w cloudfiles"
  assumes inv: "public_invariant cnames s"
  shows "public_invariant cnames (step api cnames op s)"
proof (cases op)
  case (AssignConnection v)
  then show ?thesis using inv
    by (simp add: set_connection_def assign_def invariant_connection)
next
  case (AssignContainer c)
  then show ?thesis
    using set_container_invariant [OF inv, of c "\<lambda>_. public_invariant cnames" "public_invariant cnames" api]
    by (simp add: wp_snd)
next
  case ReadContainer
  then show ?thesis
    using get_container_invariant [OF inv, of "\<lambda>_. public_invariant cnames" "public_invariant cnames" api]
    by (simp add: wp_snd)
next
  case ReadContainerUrl
  then show ?thesis
    using get_container_url_invariant [OF inv, of "\<lambda>_. public_invariant cnames" "public_invariant cnames" api]
    by (simp add: wp_snd)
next
  case (CallUrl n)
  have "wp (url api cnames n) (\<lambda>_. public_invariant cnames) (public_invariant cnames) s"
    unfolding url_def wp_andthen
    by (rule get_container_url_invariant [OF inv]) (simp_all add: wp_returns)
  then show ?thesis using CallUrl by (simp add: wp_snd)
next
  case (CallGetCloudObj n)
  then show ?thesis
    using on_container_invariant [OF inv, of "\<lambda>c. GetObject c n" api "\<lambda>c. cf_get_object api c n"]
    by (simp add: wp_snd get_cloud_obj_def)
next
  case (CallDelete n)
  have "snd (delete api n s) = snd (container_delete_object api n s)"
    by (simp add: delete_def split: prod.splits sum.splits exc.splits)
  then show ?thesis
    using CallDelete on_container_invariant [OF inv, of "\<lambda>c. DeleteObject c n" api "\<lambda>c. cf_delete_object api c n"]
    by (simp add: wp_snd container_delete_object_def)
next
  case (CallExists n)
  have "snd (exists api n s) = snd (get_cloud_obj api n s)"
    by (simp add: exists_def split: prod.splits sum.splits exc.splits)
  then show ?thesis
    using CallExists on_container_invariant [OF inv, of "\<lambda>c. GetObject c n" api "\<lambda>c. cf_get_object api c n"]
    by (simp add: wp_snd get_cloud_obj_def)
next
  case (CallSize n)
  have "snd (storage_size api n s) = snd (get_cloud_obj api n s)"
    by (simp add: storage_size_def andthen_def returns_def split: prod.splits sum.splits)
  then show ?thesis
    using CallSize on_container_invariant [OF inv, of "\<lambda>c. GetObject c n" api "\<lambda>c. cf_get_object api c n"]
    by (simp add: wp_snd get_cloud_obj_def)
next
  case (CallListdir p)
  have "snd (listdir api p s) = snd (container_list_objects api None (Some (normalize_path p)) s)"
    by (simp add: listdir_eq split: prod.splits sum.splits)
  then show ?thesis
    using CallListdir on_container_invariant [OF inv,
        of "\<lambda>c. ListObjects c None (Some (normalize_path p))" api
           "\<lambda>c. cf_list_objects api c None (Some (normalize_path p))"]
    by (simp add: wp_snd container_list_objects_def)
next
  case (CallFullListdir p)
  have "snd (full_listdir api p s) = snd (container_list_objects api (Some (normalize_path p)) None s)"
    by (simp add: full_listdir_eq split: prod.splits sum.splits)
  then show ?thesis
    using CallFullListdir on_container_invariant [OF inv,
        of "\<lambda>c. ListObjects c (Some (normalize_path p)) None" api
           "\<lambda>c. cf_list_objects api c (Some (normalize_path p)) None"]
    by (simp add: wp_snd container_list_objects_def)
qed

lemma run_invariant:
  "public_invariant cnames s \<Longrightarrow> public_invariant cnames (run api cnames ops s)"
  unfolding run_def by (induction ops arbitrary: s) (simp_all add: step_invariant)

lemma start_invariant: "public_invariant cnames (start (unbound a) w)"
  by (simp add: public_invariant_def start_def unbound_def)

lemma public_before_uri_nth:
  assumes "public_before_uri P tr" and "i < length tr" and "tr ! i = PublicUri c r"
  shows "c \<in> P \<union> ensured (take i tr)"
proof -
  have "tr = take i tr @ PublicUri c r # drop (Suc i) tr"
    using assms(2,3) by (metis id_take_nth_drop)
  then have "public_before_uri P (take i tr @ PublicUri c r # drop (Suc i) tr)"
    using assms(1) by simp
  then show ?thesis by (simp add: public_before_uri_append)
qed

lemma url_derived:
  fixes api :: "'w cloudfiles"
  assumes inv: "public_invariant cnames s" and u: "url api cnames n s = (Inr u, t)"
  shows "\<exists>c u0 b. p_container (adapter t) = Some c \<and> c \<in> ensured (calls t)
           \<and> PublicUri c (Inr u0) \<in> set (calls t) \<and> derived cnames u0 b \<and> u = b @ ''/'' @ n"
proof -
  let ?Q = "\<lambda>r t. \<exists>c u0 b. p_container (adapter t) = Some c \<and> c \<in> ensured (calls t)
           \<and> PublicUri c (Inr u0) \<in> set (calls t) \<and> derived cnames u0 b \<and> r = b @ ''/'' @ n"
  have "wp (url api cnames n) ?Q (\<lambda>_. True) s"
    unfolding url_def wp_andthen
    by (rule get_container_url_invariant [OF inv])
       (auto simp: wp_returns public_invariant_def split: option.splits)
  then show ?thesis using u by (simp add: wp_def)
qed

lemma set_container_effect:
  "(fst (set_container api c s) = Inr ()
      \<longrightarrow> p_container (adapter (snd (set_container api c s))) = Some c
          \<and> p_container_public_uri (adapter (snd (set_container api c s))) = None)
   \<and> (\<forall>e. fst (set_container api c s) = Inl e
      \<longrightarrow> adapter (snd (set_container api c s)) = adapter s)"
  by (simp add: set_container_def andthen_def returns_def remote_call_def assign_def
      split: prod.splits sum.splits)

lemmas url_run_simps =
  run_def url_def get_container_url_def unbound_def example_after_url_def run_simps

lemma example_after_url_cache:
  "p_container_public_uri (adapter example_after_url) = Some ''http://cdn/media''"
  by (simp add: url_run_simps)

lemma example_rebind:
  "fst (set_container in_memory (Container ''other'') example_after_url) = Inr ()"
  by (simp add: url_run_simps)

lemma example_url:
  "fst (url in_memory Map.empty ''a.txt''
          (run in_memory Map.empty [] (start (unbound (new_storage ''media'')) three_objects)))
     = Inr ''http://cdn/media/a.txt''"
  by (simp add: url_run_simps)

text \<open>
  Claim C8. Start from an adapter with no container bound and run any operations
  against any behaviour of the service. In the state reached the invariant holds: a
  bound container has been shown public (\<^verbatim>\<open>is_public()\<close> returned true or
  \<^verbatim>\<open>make_public()\<close> returned, before it was bound), and every call of \<^verbatim>\<open>public_uri()\<close> in
  the log comes after an event that showed its container public. An assignment of the
  container that returns leaves the new container bound and no cached URI; one that
  raises leaves the adapter as it was (the lazy fetch binds through the same setter).
  Every URL that \<^verbatim>\<open>url(n)\<close> returns is \<open>b/n\<close>, where \<open>b\<close> is derived from an answer of
  \<^verbatim>\<open>public_uri()\<close> on the container bound at that moment, a container shown public.
\<close>

theorem container_public_before_url:
  fixes api :: "'w cloudfiles"
  shows "public_invariant cnames (run api cnames ops (start (unbound a) w))
   \<and> (\<forall>i c r. i < length (calls (run api cnames ops (start (unbound a) w)))
          \<and> calls (run api cnames ops (start (unbound a) w)) ! i = PublicUri c r
        \<longrightarrow> c \<in> ensured (take i (calls (run api cnames ops (start (unbound a) w)))))
   \<and> (fst (set_container api c s) = Inr ()
        \<longrightarrow> p_container (adapter (snd (set_container api c s))) = Some c
            \<and> p_container_public_uri (adapter (snd (set_container api c s))) = None)
   \<and> (\<forall>e. fst (set_container api c s) = Inl e
        \<longrightarrow> adapter (snd (set_container api c s)) = adapter s)
   \<and> (url api cnames n (run api cnames ops (start (unbound a) w)) = (Inr u, t)
        \<longrightarrow> (\<exists>c u0 b. p_container (adapter t) = Some c \<and> c \<in> ensured (calls t)
               \<and> PublicUri c (Inr u0) \<in> set (calls t) \<and> derived cnames u0 b
               \<and> u = b @ ''/'' @ n))"
proof -
  let ?s = "run api cnames ops (start (unbound a) w)"
  have inv: "public_invariant cnames ?s"
    by (rule run_invariant [OF start_invariant])
  then have "public_before_uri {} (calls ?s)" by (simp add: public_invariant_def)
  then have before: "\<forall>i c r. i < length (calls ?s) \<and> calls ?s ! i = PublicUri c r
        \<longrightarrow> c \<in> ensured (take i (calls ?s))"
    using public_before_uri_nth [of "{}" "calls ?s"] by auto
  have issued: "url api cnames n ?s = (Inr u, t)
        \<longrightarrow> (\<exists>c u0 b. p_container (adapter t) = Some c \<and> c \<in> ensured (calls t)
               \<and> PublicUri c (Inr u0) \<in> set (calls t) \<and> derived cnames u0 b
               \<and> u = b @ ''/'' @ n)"
    using url_derived [OF inv, of api n u t] by (rule impI)
  show ?thesis
    using inv before conjunct1 [OF set_container_effect [of api c s]]
      conjunct2 [OF set_container_effect [of api c s]] issued
    by (intro conjI)
qed

theorem container_public_before_url_witness:
  "public_invariant Map.empty example_after_url
   \<and> p_container_public_uri (adapter example_after_url) = Some ''http://cdn/media''
   \<and> fst (set_container in_memory (Container ''other'') example_after_url) = Inr ()
   \<and> p_container_public_uri
        (adapter (snd (set_container in_memory (Container ''other'') example_after_url))) = None
   \<and> fst (url in_memory Map.empty ''a.txt''
          (run in_memory Map.empty [] (start (unbound (new_storage ''media'')) three_objects)))
       = Inr ''http://cdn/media/a.txt''
   \<and> (\<exists>c u0 b. c \<in> ensured (calls example_after_url)
         \<and> PublicUri c (Inr u0) \<in> set (calls example_after_url)
         \<and> derived Map.empty u0 b \<and> ''http://cdn/media/a.txt'' = b @ ''/'' @ ''a.txt'')"
proof -
  let ?s0 = "run in_memory Map.empty [] (start (unbound (new_storage ''media'')) three_objects)"
  have after: "snd (url in_memory Map.empty ''a.txt'' ?s0) = example_after_url"
    by (simp add: example_after_url_def run_def)
  have u: "url in_memory Map.empty ''a.txt'' ?s0 = (Inr ''http://cdn/media/a.txt'', example_after_url)"
    using with_snd [OF example_url] after by simp
  note T1 = container_public_before_url [where api = in_memory and cnames = Map.empty
      and ops = "[CallUrl ''a.txt'']" and a = "new_storage ''media''" and w = three_objects
      and c = "Container ''other''" and s = example_after_url]
  note T2 = container_public_before_url [where api = in_memory and cnames = Map.empty
      and ops = "[]" and a = "new_storage ''media''" and w = three_objects
      and n = "''a.txt''" and u = "''http://cdn/media/a.txt''" and t = example_after_url]
  have "public_invariant Map.empty example_after_url"
    using T1 by (simp add: example_after_url_def)
  moreover have "p_container_public_uri
        (adapter (snd (set_container in_memory (Container ''other'') example_after_url))) = None"
    using T1 example_rebind by blast
  moreover have "\<exists>c u0 b. c \<in> ensured (calls example_after_url)
         \<and> PublicUri c (Inr u0) \<in> set (calls example_after_url)
         \<and> derived Map.empty u0 b \<and> ''http://cdn/media/a.txt'' = b @ ''/'' @ ''a.txt''"
    using T2 u by blast
  ultimately show ?thesis
    using example_after_url_cache example_rebind example_url by (intro conjI)
qed

end
